theory Spec2Isabelle
  imports Complex_Main
begin

section \<open>Numbers, arrays and errors of the JavaScript program\<close>

text \<open>
  The integrator of \<^verbatim>\<open>src/algorithms/model.ts\<close> computes on JavaScript numbers held
  in arrays. A number is modelled as a real (\<open>Num r\<close>) or as \<open>NaN\<close>. Arithmetic is
  exact: rounding and the overflow to an infinity are not modelled. \<open>NaN\<close> is kept
  because it is what the program computes from a missing array element: reading an
  array out of range gives \<^verbatim>\<open>undefined\<close>, and every use the program makes of such a
  value (\<^verbatim>\<open>+\<close>, \<^verbatim>\<open>*\<close>, \<^verbatim>\<open>>\<close>) first converts it to \<open>NaN\<close>. Any operation on
  \<open>NaN\<close> gives \<open>NaN\<close> and any comparison with \<open>NaN\<close> is false. A division by zero
  gives an infinity or \<open>NaN\<close> in JavaScript; as infinities are outside the model the
  quotient is \<open>NaN\<close> here, and every statement about a value computed by a division
  assumes a divisor other than zero. What the program does once a value leaves the
  range of a double cannot be read off this arithmetic: the bound on the occupied
  beds, which depends on it, is settled on the second model of \<^verbatim>\<open>advanceState\<close>
  below, in arithmetic with overflow.
\<close>

datatype num = Num real | NaN

fun val :: "num \<Rightarrow> real" where
  "val (Num r) = r"
| "val NaN = 0"

instantiation num :: "{zero, one, plus, minus, uminus, times, inverse, ord}"
begin

definition zero_num :: num where
  "zero_num = Num 0"

definition one_num :: num where
  "one_num = Num 1"

fun plus_num :: "num \<Rightarrow> num \<Rightarrow> num" where
  "plus_num (Num a) (Num b) = Num (a + b)"
| "plus_num _ _ = NaN"

fun minus_num :: "num \<Rightarrow> num \<Rightarrow> num" where
  "minus_num (Num a) (Num b) = Num (a - b)"
| "minus_num _ _ = NaN"

fun uminus_num :: "num \<Rightarrow> num" where
  "uminus_num (Num a) = Num (- a)"
| "uminus_num NaN = NaN"

fun times_num :: "num \<Rightarrow> num \<Rightarrow> num" where
  "times_num (Num a) (Num b) = Num (a * b)"
| "times_num _ _ = NaN"

fun divide_num :: "num \<Rightarrow> num \<Rightarrow> num" where
  "divide_num (Num a) (Num b) = (if b = 0 then NaN else Num (a / b))"
| "divide_num _ _ = NaN"

fun inverse_num :: "num \<Rightarrow> num" where
  "inverse_num (Num a) = (if a = 0 then NaN else Num (1 / a))"
| "inverse_num NaN = NaN"

fun less_num :: "num \<Rightarrow> num \<Rightarrow> bool" where
  "less_num (Num a) (Num b) = (a < b)"
| "less_num _ _ = False"

fun less_eq_num :: "num \<Rightarrow> num \<Rightarrow> bool" where
  "less_eq_num (Num a) (Num b) = (a \<le> b)"
| "less_eq_num _ _ = False"

instance ..

end

text \<open>\<^verbatim>\<open>Math.round\<close> rounds half up, \<^verbatim>\<open>Math.max\<close> returns \<open>NaN\<close> when an argument is.\<close>

fun Math_round :: "num \<Rightarrow> num" where
  "Math_round (Num a) = Num (of_int \<lfloor>a + 1 / 2\<rfloor>)"
| "Math_round NaN = NaN"

fun Math_max :: "num \<Rightarrow> num \<Rightarrow> num" where
  "Math_max (Num a) (Num b) = Num (max a b)"
| "Math_max _ _ = NaN"

text \<open>
  \<^verbatim>\<open>new Date(x)\<close> keeps the time value of \<open>x\<close>: the number cut to an integer towards
  zero, or \<open>NaN\<close> beyond 8.64e15 milliseconds. A \<^verbatim>\<open>Date\<close> is modelled by that time
  value, which is also what \<^verbatim>\<open>valueOf()\<close> returns.
\<close>

fun Date :: "num \<Rightarrow> num" where
  "Date (Num a) =
     (if \<bar>a\<bar> > 8640000000000000 then NaN
      else Num (of_int (if a \<ge> 0 then \<lfloor>a\<rfloor> else \<lceil>a\<rceil>)))"
| "Date NaN = NaN"

text \<open>
  An array of numbers is a list. \<open>elem xs i\<close> is the read \<^verbatim>\<open>xs[i]\<close> used as a number;
  \<open>store xs i v\<close> is the write \<^verbatim>\<open>xs[i] = v\<close>, which extends the array when \<open>i\<close> is
  beyond its end (the holes this leaves read back as \<^verbatim>\<open>undefined\<close>, so they are
  \<open>NaN\<close> here). \<open>sum_js\<close> is the program's helper \<^verbatim>\<open>sum\<close>, \<^verbatim>\<open>arr.reduce((a, b) => a + b, 0)\<close>.
\<close>

definition elem :: "num list \<Rightarrow> nat \<Rightarrow> num" where
  "elem xs i = (if i < length xs then xs ! i else NaN)"

definition store :: "num list \<Rightarrow> nat \<Rightarrow> num \<Rightarrow> num list" where
  "store xs i v =
     (if i < length xs then xs[i := v] else xs @ replicate (i - length xs) NaN @ [v])"

definition sum_js :: "num list \<Rightarrow> num" where
  "sum_js arr = foldl (\<lambda>a b. a + b) 0 arr"

text \<open>
  The only exception these functions can raise is the \<^verbatim>\<open>TypeError\<close> of reading
  \<^verbatim>\<open>.length\<close> (or calling \<^verbatim>\<open>forEach\<close>, \<^verbatim>\<open>map\<close>) on a missing row of an array of
  arrays. A call returns \<open>Inl TypeError\<close> or \<open>Inr\<close> its result.
\<close>

datatype error = TypeError

definition andThen :: "error + 'a \<Rightarrow> ('a \<Rightarrow> error + 'b) \<Rightarrow> error + 'b" where
  "andThen r f = (case r of Inl e \<Rightarrow> Inl e | Inr v \<Rightarrow> f v)"

section \<open>Data model\<close>

text \<open>
  Modelled from the spec: the types of \<^verbatim>\<open>./types/Result.types\<close>, a file that is not
  among the sources. The fields are those of the data model of the specification,
  under the names by which \<^verbatim>\<open>model.ts\<close> reads and writes them. The cumulative
  fields carry the prefix \<open>cumulative_\<close>, since \<^verbatim>\<open>critical\<close> names a field of both
  \<^verbatim>\<open>current\<close> and \<^verbatim>\<open>cumulative\<close>. A \<^verbatim>\<open>SimulationTimePoint\<close> is a
  \<^verbatim>\<open>TimeDerivative\<close> with a \<^verbatim>\<open>time\<close> (milliseconds).
\<close>

record InternalCurrentData =
  susceptible :: "num list"
  exposed :: "num list list"
  infectious :: "num list"
  severe :: "num list"
  critical :: "num list"
  overflow :: "num list"

record InternalCumulativeData =
  cumulative_recovered :: "num list"
  cumulative_hospitalized :: "num list"
  cumulative_critical :: "num list"
  cumulative_fatality :: "num list"

record TimeDerivative =
  current :: InternalCurrentData
  cumulative :: InternalCumulativeData

record SimulationTimePoint = TimeDerivative +
  time :: num

text \<open>The interface \<^verbatim>\<open>StateFlux\<close>; \<open>infectious_severe\<close> is \<^verbatim>\<open>flux.infectious.severe\<close>.\<close>

record StateFlux =
  flux_susceptible :: "num list"
  flux_exposed :: "num list list"
  infectious_severe :: "num list"
  infectious_recovered :: "num list"
  severe_critical :: "num list"
  severe_recovered :: "num list"
  critical_severe :: "num list"
  critical_fatality :: "num list"
  overflow_severe :: "num list"
  overflow_fatality :: "num list"

text \<open>
  Modelled from the spec: \<^verbatim>\<open>ModelParams\<close>, declared in the same missing file, with
  the fields that the integrator reads; \<open>frac_isolated\<close> is \<^verbatim>\<open>P.frac.isolated\<close>,
  \<open>rate_severe\<close> is \<^verbatim>\<open>P.rate.severe\<close>, and \<open>rate_infection\<close> is the callable
  \<^verbatim>\<open>P.rate.infection\<close>, from a \<^verbatim>\<open>Date\<close> to a number.
\<close>

record ModelParams =
  ICUBeds :: num
  populationServed :: num
  importsPerDay :: "num list"
  frac_isolated :: "num list"
  rate_latency :: num
  rate_infection :: "num \<Rightarrow> num"
  rate_recovery :: "num list"
  rate_severe :: "num list"
  rate_discharge :: "num list"
  rate_critical :: "num list"
  rate_stabilize :: "num list"
  rate_fatality :: "num list"
  rate_overflowFatality :: "num list"

section \<open>The Flux Calculator: \<^verbatim>\<open>fluxes\<close>\<close>

definition fluxes :: "num \<Rightarrow> 'a SimulationTimePoint_scheme \<Rightarrow> ModelParams \<Rightarrow> error + StateFlux" where
  "fluxes t pop P =
     (let c = current pop;
          n = length (infectious c);
          fracInfected = sum_js (infectious c) / populationServed P
      in if length (exposed c) < n then Inl TypeError
         else Inr \<lparr>
           flux_susceptible = map (\<lambda>age.
             elem (importsPerDay P) age +
             (1 - elem (frac_isolated P) age) * rate_infection P t * elem (susceptible c) age * fracInfected)
             [0..<n],
           flux_exposed = map (\<lambda>age.
             map (\<lambda>e. rate_latency P * e * Num (real (length (exposed c ! age)))) (exposed c ! age))
             [0..<n],
           infectious_severe = map (\<lambda>age. elem (infectious c) age * elem (rate_severe P) age) [0..<n],
           infectious_recovered = map (\<lambda>age. elem (infectious c) age * elem (rate_recovery P) age) [0..<n],
           severe_critical = map (\<lambda>age. elem (severe c) age * elem (rate_critical P) age) [0..<n],
           severe_recovered = map (\<lambda>age. elem (severe c) age * elem (rate_discharge P) age) [0..<n],
           critical_severe = map (\<lambda>age. elem (critical c) age * elem (rate_stabilize P) age) [0..<n],
           critical_fatality = map (\<lambda>age. elem (critical c) age * elem (rate_fatality P) age) [0..<n],
           overflow_severe = map (\<lambda>age. elem (overflow c) age * elem (rate_stabilize P) age) [0..<n],
           overflow_fatality = map (\<lambda>age. elem (overflow c) age * elem (rate_overflowFatality P) age) [0..<n]
         \<rparr>)"

section \<open>The Derivative Assembler: \<^verbatim>\<open>derivative\<close>\<close>

text \<open>
  The \<^verbatim>\<open>forEach\<close> over one age group's exposed chain: \<open>fluxIn\<close> starts as the
  susceptible flux and becomes each stage's outflow in turn. The result is the row of
  derivatives and the last \<open>fluxIn\<close>.
\<close>

fun exposedChain :: "num \<Rightarrow> num list \<Rightarrow> num list \<times> num" where
  "exposedChain fluxIn [] = ([], fluxIn)"
| "exposedChain fluxIn (fluxOut # rest) =
     (let (row, last) = exposedChain fluxOut rest in ((fluxIn - fluxOut) # row, last))"

definition derivative :: "StateFlux \<Rightarrow> error + TimeDerivative" where
  "derivative flux =
     (let n = length (flux_susceptible flux);
          fluxIn = (\<lambda>age. snd (exposedChain (flux_susceptible flux ! age) (flux_exposed flux ! age)))
      in if length (flux_exposed flux) < n then Inl TypeError
         else Inr \<lparr>
           current = \<lparr>
             susceptible = map (\<lambda>age. - (flux_susceptible flux ! age)) [0..<n],
             exposed = map (\<lambda>age.
               fst (exposedChain (flux_susceptible flux ! age) (flux_exposed flux ! age))) [0..<n],
             infectious = map (\<lambda>age.
               fluxIn age - elem (infectious_severe flux) age - elem (infectious_recovered flux) age) [0..<n],
             severe = map (\<lambda>age.
               elem (infectious_severe flux) age + elem (critical_severe flux) age +
               elem (overflow_severe flux) age - elem (severe_critical flux) age -
               elem (severe_recovered flux) age) [0..<n],
             critical = map (\<lambda>age.
               elem (severe_critical flux) age - elem (critical_severe flux) age -
               elem (critical_fatality flux) age) [0..<n],
             overflow = map (\<lambda>age.
               - (elem (overflow_severe flux) age + elem (overflow_fatality flux) age)) [0..<n]
           \<rparr>,
           cumulative = \<lparr>
             cumulative_recovered = map (\<lambda>age.
               elem (infectious_recovered flux) age + elem (severe_recovered flux) age) [0..<n],
             cumulative_hospitalized = map (\<lambda>age.
               elem (infectious_severe flux) age + elem (infectious_severe flux) age) [0..<n],
             cumulative_critical = map (\<lambda>age.
               elem (severe_recovered flux) age + elem (severe_recovered flux) age) [0..<n],
             cumulative_fatality = map (\<lambda>age.
               elem (critical_fatality flux) age + elem (overflow_fatality flux) age) [0..<n]
           \<rparr>
         \<rparr>)"

section \<open>The Capacity-Constrained State Advancer: \<^verbatim>\<open>advanceState\<close>\<close>

definition gz :: "num \<Rightarrow> num" where
  "gz x = (if x > 0 then x else 0)"

text \<open>
  \<open>update\<close> is the new value that the helper of that name stores at \<open>age\<close>, from the
  array \<open>p\<close> of the state and the array \<open>t\<close> of the derivative; \<open>updateAt\<close> is the
  same for stage \<open>i\<close> of one exposed chain.
\<close>

definition update :: "num \<Rightarrow> num list \<Rightarrow> num list \<Rightarrow> nat \<Rightarrow> num" where
  "update dt p t age = gz (elem p age + dt * elem t age)"

definition updateAt :: "num \<Rightarrow> num list \<Rightarrow> num list \<Rightarrow> nat \<Rightarrow> num" where
  "updateAt dt p t i = gz (elem p i + dt * elem t i)"

text \<open>
  One exposed chain: \<^verbatim>\<open>Array(t.length)\<close>, then stages \<open>0\<close> to \<open>p.length - 1\<close> are
  written. Stages that the derivative has and the state has not stay holes (\<open>NaN\<close>
  here); there are none when the chains of the derivative are as long as those of
  the state, as they are for every derivative that \<open>stepODE\<close> computes.
\<close>

definition exposedRow :: "num \<Rightarrow> num list \<Rightarrow> num list \<Rightarrow> num list" where
  "exposedRow dt p t = map (updateAt dt p t) [0..<length p] @ replicate (length t - length p) NaN"

text \<open>
  The first loop of \<^verbatim>\<open>advanceState\<close>: the Euler update, floored at zero, of every
  age group below \<^verbatim>\<open>pop.current.infectious.length\<close>. \<open>now\<close> is the value of
  \<^verbatim>\<open>Date.now()\<close> that the new state is created with.
\<close>

definition eulerUpdate ::
  "num \<Rightarrow> 'a SimulationTimePoint_scheme \<Rightarrow> 'b TimeDerivative_scheme \<Rightarrow> num \<Rightarrow> error + SimulationTimePoint" where
  "eulerUpdate now pop tdot dt =
     (let n = length (infectious (current pop));
          c = current pop; dc = current tdot;
          u = cumulative pop; du = cumulative tdot
      in if length (exposed dc) < n \<or> length (exposed c) < n then Inl TypeError
         else Inr \<lparr>
           current = \<lparr>
             susceptible = map (update dt (susceptible c) (susceptible dc)) [0..<n],
             exposed = map (\<lambda>age. exposedRow dt (exposed c ! age) (exposed dc ! age)) [0..<n],
             infectious = map (update dt (infectious c) (infectious dc)) [0..<n],
             severe = map (update dt (severe c) (severe dc)) [0..<n],
             critical = map (update dt (critical c) (critical dc)) [0..<n],
             overflow = map (update dt (overflow c) (overflow dc)) [0..<n]
           \<rparr>,
           cumulative = \<lparr>
             cumulative_recovered = map (update dt (cumulative_recovered u) (cumulative_recovered du)) [0..<n],
             cumulative_hospitalized =
               map (update dt (cumulative_hospitalized u) (cumulative_hospitalized du)) [0..<n],
             cumulative_critical = map (update dt (cumulative_critical u) (cumulative_critical du)) [0..<n],
             cumulative_fatality = map (update dt (cumulative_fatality u) (cumulative_fatality du)) [0..<n]
           \<rparr>,
           time = now
         \<rparr>)"

text \<open>
  The loop over capacity: \<^verbatim>\<open>for (age = m - 1; freeICUBeds < 0 && age >= 0; age--)\<close>.
  The state of the loop is the critical array, the overflow array and \<open>freeICUBeds\<close>;
  \<open>displace k\<close> runs the loop from \<open>age = k - 1\<close> down.
\<close>

fun displace :: "nat \<Rightarrow> num list \<times> num list \<times> num \<Rightarrow> num list \<times> num list \<times> num" where
  "displace 0 s = s"
| "displace (Suc age) (crit, over, freeICUBeds) =
     (if freeICUBeds < 0 then
        (if elem crit age > - freeICUBeds then
           displace age
             (store crit age (elem crit age + freeICUBeds),
              store over age (elem over age - freeICUBeds),
              0)
         else
           displace age
             (store crit age 0,
              store over age (elem over age + elem crit age),
              freeICUBeds + elem crit age))
      else (crit, over, freeICUBeds))"

text \<open>
  The loop under capacity: \<^verbatim>\<open>for (age = 0; freeICUBeds > 0 && age < m; age++)\<close>.
\<close>

function readmit :: "nat \<Rightarrow> nat \<Rightarrow> num list \<times> num list \<times> num \<Rightarrow> num list \<times> num list \<times> num" where
  "readmit age m (crit, over, freeICUBeds) =
     (if freeICUBeds > 0 \<and> age < m then
        (if elem over age > freeICUBeds then
           readmit (Suc age) m
             (store crit age (elem crit age + freeICUBeds),
              store over age (elem over age - freeICUBeds),
              0)
         else
           readmit (Suc age) m
             (store crit age (elem crit age + elem over age),
              store over age 0,
              freeICUBeds - elem over age))
      else (crit, over, freeICUBeds))"
  by pat_completeness auto
termination
  by (relation "measure (\<lambda>(age, m, s). m - age)") auto

text \<open>
  The second part of \<^verbatim>\<open>advanceState\<close>: both loops, on the state \<open>newPop\<close> that the
  Euler update built, with \<open>m = pop.current.critical.length\<close>.
\<close>

definition redistribute :: "num \<Rightarrow> nat \<Rightarrow> SimulationTimePoint \<Rightarrow> SimulationTimePoint" where
  "redistribute nICUBeds m newPop =
     (let freeICUBeds = nICUBeds - sum_js (critical (current newPop));
          (crit, over, free) =
             readmit 0 m
               (displace m (critical (current newPop), overflow (current newPop), freeICUBeds))
      in newPop\<lparr>current := (current newPop)\<lparr>critical := crit, overflow := over\<rparr>\<rparr>)"

definition advanceState ::
  "num \<Rightarrow> 'a SimulationTimePoint_scheme \<Rightarrow> 'b TimeDerivative_scheme \<Rightarrow> num \<Rightarrow> num \<Rightarrow> error + SimulationTimePoint" where
  "advanceState now pop tdot dt nICUBeds =
     andThen (eulerUpdate now pop tdot dt)
       (\<lambda>newPop. Inr (redistribute nICUBeds (length (critical (current pop))) newPop))"

section \<open>The Stage Combiner: \<^verbatim>\<open>sumDerivatives\<close>\<close>

text \<open>The all-zero derivative that the first loop builds, shaped after \<^verbatim>\<open>grads[0]\<close>.\<close>

definition zeroDerivative :: "nat \<Rightarrow> TimeDerivative \<Rightarrow> TimeDerivative" where
  "zeroDerivative n g0 = \<lparr>
     current = \<lparr>
       susceptible = replicate n 0,
       exposed = map (\<lambda>age. map (\<lambda>e. 0) (exposed (current g0) ! age)) [0..<n],
       infectious = replicate n 0,
       severe = replicate n 0,
       critical = replicate n 0,
       overflow = replicate n 0
     \<rparr>,
     cumulative = \<lparr>
       cumulative_recovered = replicate n 0,
       cumulative_hospitalized = replicate n 0,
       cumulative_critical = replicate n 0,
       cumulative_fatality = replicate n 0
     \<rparr>
   \<rparr>"

text \<open>
  \<^verbatim>\<open>sum[age] += scale[i] * grad[age]\<close> for the ages below \<open>n\<close>, and
  \<^verbatim>\<open>sum.current.exposed[age][j] += scale[i] * e\<close> for every stage \<open>e\<close> of the chain of
  \<open>grad\<close>: a stage beyond the end of the row of \<open>sum\<close> is appended to it.
\<close>

definition addScaled :: "num \<Rightarrow> num list \<Rightarrow> num list \<Rightarrow> nat \<Rightarrow> num list" where
  "addScaled w acc g n = map (\<lambda>age. elem acc age + w * elem g age) [0..<n]"

definition addScaledRow :: "num \<Rightarrow> num list \<Rightarrow> num list \<Rightarrow> num list" where
  "addScaledRow w acc g =
     map (\<lambda>j. elem acc j + w * (g ! j)) [0..<length g] @ drop (length g) acc"

definition accumulate :: "nat \<Rightarrow> num \<Rightarrow> TimeDerivative \<Rightarrow> TimeDerivative \<Rightarrow> error + TimeDerivative" where
  "accumulate n w acc grad =
     (let a = current acc; g = current grad; ua = cumulative acc; ug = cumulative grad
      in if length (exposed g) < n then Inl TypeError
         else Inr \<lparr>
           current = \<lparr>
             susceptible = addScaled w (susceptible a) (susceptible g) n,
             exposed = map (\<lambda>age. addScaledRow w (exposed a ! age) (exposed g ! age)) [0..<n],
             infectious = addScaled w (infectious a) (infectious g) n,
             severe = addScaled w (severe a) (severe g) n,
             critical = addScaled w (critical a) (critical g) n,
             overflow = addScaled w (overflow a) (overflow g) n
           \<rparr>,
           cumulative = \<lparr>
             cumulative_recovered = addScaled w (cumulative_recovered ua) (cumulative_recovered ug) n,
             cumulative_hospitalized =
               addScaled w (cumulative_hospitalized ua) (cumulative_hospitalized ug) n,
             cumulative_critical = addScaled w (cumulative_critical ua) (cumulative_critical ug) n,
             cumulative_fatality = addScaled w (cumulative_fatality ua) (cumulative_fatality ug) n
           \<rparr>
         \<rparr>)"

text \<open>\<^verbatim>\<open>grads.forEach((grad, i) => ...)\<close>, from index \<open>i\<close> on.\<close>

fun sumLoop :: "nat \<Rightarrow> num list \<Rightarrow> nat \<Rightarrow> TimeDerivative list \<Rightarrow> TimeDerivative \<Rightarrow> error + TimeDerivative" where
  "sumLoop n scale i [] acc = Inr acc"
| "sumLoop n scale i (grad # rest) acc =
     andThen (accumulate n (elem scale i) acc grad) (sumLoop n scale (Suc i) rest)"

definition sumDerivatives :: "TimeDerivative list \<Rightarrow> num list \<Rightarrow> error + TimeDerivative" where
  "sumDerivatives grads scale =
     (case grads of
        [] \<Rightarrow> Inl TypeError
      | g0 # _ \<Rightarrow>
          (let n = length (susceptible (current g0))
           in if length (exposed (current g0)) < n then Inl TypeError
              else sumLoop n scale 0 grads (zeroDerivative n g0)))"

section \<open>The RK4 Stepper: \<^verbatim>\<open>stepODE\<close>\<close>

text \<open>
  \<open>msPerDay\<close> is imported from \<^verbatim>\<open>./initialize\<close>, which is not among the sources, and
  is a parameter here. \<open>clock i\<close> is what the \<open>i\<close>-th call of \<^verbatim>\<open>Date.now()\<close> within
  the step returns.
\<close>

definition stepODE ::
  "num \<Rightarrow> (nat \<Rightarrow> num) \<Rightarrow> SimulationTimePoint \<Rightarrow> ModelParams \<Rightarrow> num \<Rightarrow> error + SimulationTimePoint" where
  "stepODE msPerDay clock pop P dt =
     (let t0 = Date (time pop);
          t1 = Date (time pop + (dt / Num 2) * msPerDay);
          t2 = Date (time pop + dt * msPerDay)
      in
      andThen (andThen (fluxes t0 pop P) derivative) (\<lambda>k1.
      andThen (andThen (andThen (advanceState (clock 0) pop k1 (dt / Num 2) (ICUBeds P))
                         (\<lambda>s. fluxes t1 s P)) derivative) (\<lambda>k2.
      andThen (andThen (andThen (advanceState (clock 1) pop k2 (dt / Num 2) (ICUBeds P))
                         (\<lambda>s. fluxes t1 s P)) derivative) (\<lambda>k3.
      andThen (andThen (andThen (advanceState (clock 2) pop k3 dt (ICUBeds P))
                         (\<lambda>s. fluxes t2 s P)) derivative) (\<lambda>k4.
      andThen (sumDerivatives [k1, k2, k3, k4] [Num (1 / 6), Num (1 / 3), Num (1 / 3), Num (1 / 6)]) (\<lambda>tdot.
      andThen (advanceState (clock 3) pop tdot dt (ICUBeds P)) (\<lambda>state.
      Inr (state\<lparr>time := t2\<rparr>))))))))"

section \<open>The Trajectory Driver: \<^verbatim>\<open>evolve\<close>\<close>

definition eulerStep :: num where
  "eulerStep = Num (1 / 2)"

text \<open>
  \<^verbatim>\<open>for (let i = i0; i < nSteps; i++) currState = stepODE(currState, P, dt)\<close>. Step
  \<open>i\<close> makes the calls \<open>4 i\<close> to \<open>4 i + 3\<close> of \<^verbatim>\<open>Date.now()\<close>.
\<close>

function evolveLoop ::
  "num \<Rightarrow> (nat \<Rightarrow> num) \<Rightarrow> ModelParams \<Rightarrow> num \<Rightarrow> num \<Rightarrow> nat \<Rightarrow> SimulationTimePoint \<Rightarrow> error + SimulationTimePoint" where
  "evolveLoop msPerDay clock P dt nSteps i currState =
     (if Num (real i) < nSteps then
        andThen (stepODE msPerDay (\<lambda>j. clock (4 * i + j)) currState P dt)
          (evolveLoop msPerDay clock P dt nSteps (Suc i))
      else Inr currState)"
  by pat_completeness auto
termination
proof (relation "measure (\<lambda>(msPerDay, clock, P, dt, nSteps, i, currState). nat \<lceil>val nSteps\<rceil> - i)")
  show "wf (measure (\<lambda>(msPerDay, clock, P, dt, nSteps, i, currState). nat \<lceil>val nSteps\<rceil> - i))"
    by simp
next
  fix msPerDay :: num and clock :: "nat \<Rightarrow> num" and P :: ModelParams and dt nSteps :: num
    and i :: nat and currState x :: SimulationTimePoint
  assume "Num (real i) < nSteps"
  then obtain r where r: "nSteps = Num r" "real i < r"
    by (cases nSteps) auto
  then have "i < nat \<lceil>r\<rceil>"
    by linarith
  with r show "((msPerDay, clock, P, dt, nSteps, Suc i, x), (msPerDay, clock, P, dt, nSteps, i, currState))
      \<in> measure (\<lambda>(msPerDay, clock, P, dt, nSteps, i, currState). nat \<lceil>val nSteps\<rceil> - i)"
    by simp
qed

definition evolve ::
  "num \<Rightarrow> (nat \<Rightarrow> num) \<Rightarrow> SimulationTimePoint \<Rightarrow> ModelParams \<Rightarrow> num \<Rightarrow> (num \<Rightarrow> num) \<Rightarrow> error + SimulationTimePoint" where
  "evolve msPerDay clock pop P tMax sample =
     (let dT = tMax - time pop;
          nSteps = Math_max 1 (Math_round (dT / eulerStep));
          dt = dT / nSteps
      in evolveLoop msPerDay clock P dt nSteps 0 pop)"

section \<open>\<^verbatim>\<open>advanceState\<close> in arithmetic with overflow\<close>

text \<open>
  The arithmetic of \<open>num\<close> never leaves the reals, so it cannot show what the program
  does once a value exceeds the range of a double. For the capacity of the beds this
  matters: \<open>advanceState\<close> is therefore modelled a second time, on numbers with both
  infinities. A \<open>dbl\<close> is a real, \<open>PosInf\<close>, \<open>NegInf\<close> or \<open>NotANumber\<close>. The result of an
  operation on reals is the exact result when its magnitude is below
  \<open>2^1024 - 2^970\<close>, the least magnitude that a double operation rounds to an infinity,
  and the infinity of its sign otherwise (\<open>ovf\<close>); the infinities and \<open>NotANumber\<close>
  follow IEEE 754 (\<open>Infinity - Infinity\<close> and \<open>0 * Infinity\<close> are \<open>NaN\<close>, no comparison
  with \<open>NaN\<close> holds). The rounding of finite results and the sign of zero are not
  modelled.
\<close>

datatype dbl = Dbl real | PosInf | NegInf | NotANumber

definition overflow_threshold :: real where
  "overflow_threshold = 2 ^ 1024 - 2 ^ 970"

definition ovf :: "real \<Rightarrow> dbl" where
  "ovf x =
     (if overflow_threshold \<le> x then PosInf
      else if x \<le> - overflow_threshold then NegInf
      else Dbl x)"

instantiation dbl :: "{zero, plus, minus, uminus, times, ord}"
begin

definition zero_dbl :: dbl where
  "zero_dbl = Dbl 0"

fun plus_dbl :: "dbl \<Rightarrow> dbl \<Rightarrow> dbl" where
  "plus_dbl (Dbl a) (Dbl b) = ovf (a + b)"
| "plus_dbl NotANumber _ = NotANumber"
| "plus_dbl _ NotANumber = NotANumber"
| "plus_dbl PosInf NegInf = NotANumber"
| "plus_dbl NegInf PosInf = NotANumber"
| "plus_dbl PosInf _ = PosInf"
| "plus_dbl _ PosInf = PosInf"
| "plus_dbl NegInf _ = NegInf"
| "plus_dbl _ NegInf = NegInf"

fun uminus_dbl :: "dbl \<Rightarrow> dbl" where
  "uminus_dbl (Dbl a) = Dbl (- a)"
| "uminus_dbl PosInf = NegInf"
| "uminus_dbl NegInf = PosInf"
| "uminus_dbl NotANumber = NotANumber"

fun minus_dbl :: "dbl \<Rightarrow> dbl \<Rightarrow> dbl" where
  "minus_dbl (Dbl a) (Dbl b) = ovf (a - b)"
| "minus_dbl NotANumber _ = NotANumber"
| "minus_dbl _ NotANumber = NotANumber"
| "minus_dbl PosInf PosInf = NotANumber"
| "minus_dbl NegInf NegInf = NotANumber"
| "minus_dbl PosInf _ = PosInf"
| "minus_dbl _ NegInf = PosInf"
| "minus_dbl NegInf _ = NegInf"
| "minus_dbl _ PosInf = NegInf"

fun times_dbl :: "dbl \<Rightarrow> dbl \<Rightarrow> dbl" where
  "times_dbl (Dbl a) (Dbl b) = ovf (a * b)"
| "times_dbl NotANumber _ = NotANumber"
| "times_dbl _ NotANumber = NotANumber"
| "times_dbl (Dbl a) PosInf = (if a = 0 then NotANumber else if 0 < a then PosInf else NegInf)"
| "times_dbl (Dbl a) NegInf = (if a = 0 then NotANumber else if 0 < a then NegInf else PosInf)"
| "times_dbl PosInf (Dbl b) = (if b = 0 then NotANumber else if 0 < b then PosInf else NegInf)"
| "times_dbl NegInf (Dbl b) = (if b = 0 then NotANumber else if 0 < b then NegInf else PosInf)"
| "times_dbl PosInf PosInf = PosInf"
| "times_dbl NegInf NegInf = PosInf"
| "times_dbl PosInf NegInf = NegInf"
| "times_dbl NegInf PosInf = NegInf"

fun less_dbl :: "dbl \<Rightarrow> dbl \<Rightarrow> bool" where
  "less_dbl (Dbl a) (Dbl b) = (a < b)"
| "less_dbl NotANumber _ = False"
| "less_dbl _ NotANumber = False"
| "less_dbl PosInf _ = False"
| "less_dbl _ NegInf = False"
| "less_dbl _ PosInf = True"
| "less_dbl NegInf _ = True"

fun less_eq_dbl :: "dbl \<Rightarrow> dbl \<Rightarrow> bool" where
  "less_eq_dbl (Dbl a) (Dbl b) = (a \<le> b)"
| "less_eq_dbl NotANumber _ = False"
| "less_eq_dbl _ NotANumber = False"
| "less_eq_dbl _ PosInf = True"
| "less_eq_dbl NegInf _ = True"
| "less_eq_dbl PosInf _ = False"
| "less_eq_dbl _ NegInf = False"

instance ..

end

















section \<open>The specification's wording of the operations\<close>

text \<open>
  The two passes of the capacity redistribution written from the specification, on
  arrays of reals: from the oldest age group down, move \<open>min(critical[a], -freeBeds)\<close>
  from critical to overflow and stop once \<open>freeBeds \<ge> 0\<close>; from the youngest age group
  up, move \<open>min(overflow[a], freeBeds)\<close> from overflow back to critical and stop once
  \<open>freeBeds \<le> 0\<close>. They are compared below with the loops of the program.
\<close>

fun spec_displace :: "nat \<Rightarrow> real list \<times> real list \<times> real \<Rightarrow> real list \<times> real list \<times> real" where
  "spec_displace 0 s = s"
| "spec_displace (Suc a) (c, ov, freeBeds) =
     (if freeBeds < 0 then
        (let moved = min (c ! a) (- freeBeds)
         in spec_displace a (c[a := c ! a - moved], ov[a := ov ! a + moved], freeBeds + moved))
      else (c, ov, freeBeds))"

function spec_readmit :: "nat \<Rightarrow> nat \<Rightarrow> real list \<times> real list \<times> real \<Rightarrow> real list \<times> real list \<times> real" where
  "spec_readmit a m (c, ov, freeBeds) =
     (if freeBeds > 0 \<and> a < m then
        (let moved = min (ov ! a) freeBeds
         in spec_readmit (Suc a) m (c[a := c ! a + moved], ov[a := ov ! a - moved], freeBeds - moved))
      else (c, ov, freeBeds))"
  by pat_completeness auto
termination
  by (relation "measure (\<lambda>(a, m, s). m - a)") auto

definition spec_redistribute :: "real \<Rightarrow> real list \<times> real list \<Rightarrow> real list \<times> real list" where
  "spec_redistribute icuBeds s =
     (let c = fst s; ov = snd s; freeBeds = icuBeds - sum_list c
      in if freeBeds < 0 then
           (case spec_displace (length c) (c, ov, freeBeds) of (c', ov', f') \<Rightarrow> (c', ov'))
         else if freeBeds > 0 then
           (case spec_readmit 0 (length c) (c, ov, freeBeds) of (c', ov', f') \<Rightarrow> (c', ov'))
         else (c, ov))"

text \<open>Arrays of finite numbers, and the predicates the theorems use.\<close>

definition lift :: "real list \<times> real list \<times> real \<Rightarrow> num list \<times> num list \<times> num" where
  "lift s = (case s of (c, ov, f) \<Rightarrow> (map Num c, map Num ov, Num f))"

definition nonneg :: "num list \<Rightarrow> bool" where
  "nonneg xs = list_all (\<lambda>x. 0 \<le> x) xs"

text \<open>
  The Euler update as the specification words it, \<open>x' = max(0, x + dt * dx/dt)\<close>, on
  finite numbers. Where an operand is \<open>NaN\<close> (a missing array element among them) the
  result is zero: the helper \<^verbatim>\<open>gz\<close> of the program returns zero whenever its
  comparison \<^verbatim>\<open>x > 0\<close> fails.
\<close>

fun euler_clamp :: "num \<Rightarrow> num \<Rightarrow> num \<Rightarrow> num" where
  "euler_clamp (Num h) (Num x) (Num d) = Num (max 0 (x + h * d))"
| "euler_clamp _ _ _ = Num 0"

definition euler_spec :: "num \<Rightarrow> num list \<Rightarrow> num list \<Rightarrow> nat \<Rightarrow> num list" where
  "euler_spec dt p t n = map (\<lambda>age. euler_clamp dt (elem p age) (elem t age)) [0..<n]"

text \<open>Every stock and every cumulative field of a state is at least zero.\<close>

definition nonneg_state :: "'a TimeDerivative_scheme \<Rightarrow> bool" where
  "nonneg_state s \<longleftrightarrow>
     nonneg (susceptible (current s)) \<and> list_all nonneg (exposed (current s)) \<and>
     nonneg (infectious (current s)) \<and> nonneg (severe (current s)) \<and>
     nonneg (critical (current s)) \<and> nonneg (overflow (current s)) \<and>
     nonneg (cumulative_recovered (cumulative s)) \<and> nonneg (cumulative_hospitalized (cumulative s)) \<and>
     nonneg (cumulative_critical (cumulative s)) \<and> nonneg (cumulative_fatality (cumulative s))"

text \<open>
  The Trajectory Driver as the specification words it: the stepper applied \<open>n\<close> times
  in sequence, each application on the output of the one before; \<open>step i\<close> is the
  \<open>i\<close>-th application, and an error ends the sequence.
\<close>

primrec applySteps ::
  "nat \<Rightarrow> (nat \<Rightarrow> SimulationTimePoint \<Rightarrow> error + SimulationTimePoint) \<Rightarrow> nat \<Rightarrow> SimulationTimePoint
     \<Rightarrow> error + SimulationTimePoint" where
  "applySteps 0 step i s = Inr s"
| "applySteps (Suc k) step i s = andThen (step i s) (applySteps k step (Suc i))"

text \<open>
  The Stage Combiner as the specification words it for RK4: every scalar field and
  every stage of every chain of the result is the weighted sum
  \<open>1/6 k1 + 1/3 k2 + 1/3 k3 + 1/6 k4\<close> of that element of the four derivatives.
\<close>

definition rk4_weighted :: "num \<Rightarrow> num \<Rightarrow> num \<Rightarrow> num \<Rightarrow> num" where
  "rk4_weighted a b c d = Num (1 / 6) * a + Num (1 / 3) * b + Num (1 / 3) * c + Num (1 / 6) * d"

definition rk4_field :: "num list \<Rightarrow> num list \<Rightarrow> num list \<Rightarrow> num list \<Rightarrow> nat \<Rightarrow> num list" where
  "rk4_field a b c d n =
     map (\<lambda>age. rk4_weighted (elem a age) (elem b age) (elem c age) (elem d age)) [0..<n]"

definition rk4_rows ::
  "num list list \<Rightarrow> num list list \<Rightarrow> num list list \<Rightarrow> num list list \<Rightarrow> nat \<Rightarrow> num list list" where
  "rk4_rows a b c d n =
     map (\<lambda>age. rk4_field (a ! age) (b ! age) (c ! age) (d ! age) (length (a ! age))) [0..<n]"

definition combine_rk4 ::
  "TimeDerivative \<Rightarrow> TimeDerivative \<Rightarrow> TimeDerivative \<Rightarrow> TimeDerivative \<Rightarrow> TimeDerivative" where
  "combine_rk4 k1 k2 k3 k4 =
     (let n = length (susceptible (current k1));
          c1 = current k1; c2 = current k2; c3 = current k3; c4 = current k4;
          u1 = cumulative k1; u2 = cumulative k2; u3 = cumulative k3; u4 = cumulative k4
      in \<lparr>
        current = \<lparr>
          susceptible = rk4_field (susceptible c1) (susceptible c2) (susceptible c3) (susceptible c4) n,
          exposed = rk4_rows (exposed c1) (exposed c2) (exposed c3) (exposed c4) n,
          infectious = rk4_field (infectious c1) (infectious c2) (infectious c3) (infectious c4) n,
          severe = rk4_field (severe c1) (severe c2) (severe c3) (severe c4) n,
          critical = rk4_field (critical c1) (critical c2) (critical c3) (critical c4) n,
          overflow = rk4_field (overflow c1) (overflow c2) (overflow c3) (overflow c4) n
        \<rparr>,
        cumulative = \<lparr>
          cumulative_recovered = rk4_field (cumulative_recovered u1) (cumulative_recovered u2)
            (cumulative_recovered u3) (cumulative_recovered u4) n,
          cumulative_hospitalized = rk4_field (cumulative_hospitalized u1) (cumulative_hospitalized u2)
            (cumulative_hospitalized u3) (cumulative_hospitalized u4) n,
          cumulative_critical = rk4_field (cumulative_critical u1) (cumulative_critical u2)
            (cumulative_critical u3) (cumulative_critical u4) n,
          cumulative_fatality = rk4_field (cumulative_fatality u1) (cumulative_fatality u2)
            (cumulative_fatality u3) (cumulative_fatality u4) n
        \<rparr>
      \<rparr>)"

text \<open>
  Shapes: \<open>ls\<close> lists the chain length of each age group. A state has the shape \<open>ls\<close>
  when it has that many infectious entries and chains of these lengths for them; a
  derivative, when it has that many susceptible entries and exactly these chains.
\<close>

definition state_shape :: "nat list \<Rightarrow> 'a SimulationTimePoint_scheme \<Rightarrow> bool" where
  "state_shape ls s \<longleftrightarrow>
     length (infectious (current s)) = length ls \<and>
     length ls \<le> length (exposed (current s)) \<and>
     take (length ls) (map length (exposed (current s))) = ls"

definition deriv_shape :: "nat list \<Rightarrow> TimeDerivative \<Rightarrow> bool" where
  "deriv_shape ls k \<longleftrightarrow>
     length (susceptible (current k)) = length ls \<and> map length (exposed (current k)) = ls"

text \<open>
  The condition the specification calls \<^verbatim>\<open>ShapeMismatch\<close>: the lengths of the
  per-age-group arrays of the state disagree with those of the parameters, or the
  exposed chains of the age groups differ in length.
\<close>

definition state_lengths :: "'a SimulationTimePoint_scheme \<Rightarrow> nat list" where
  "state_lengths pop =
     [length (susceptible (current pop)), length (exposed (current pop)),
      length (infectious (current pop)), length (severe (current pop)),
      length (critical (current pop)), length (overflow (current pop)),
      length (cumulative_recovered (cumulative pop)), length (cumulative_hospitalized (cumulative pop)),
      length (cumulative_critical (cumulative pop)), length (cumulative_fatality (cumulative pop))]"

definition param_lengths :: "ModelParams \<Rightarrow> nat list" where
  "param_lengths P =
     [length (importsPerDay P), length (frac_isolated P), length (rate_recovery P),
      length (rate_severe P), length (rate_discharge P), length (rate_critical P),
      length (rate_stabilize P), length (rate_fatality P), length (rate_overflowFatality P)]"

definition shape_mismatch :: "'a SimulationTimePoint_scheme \<Rightarrow> ModelParams \<Rightarrow> bool" where
  "shape_mismatch pop P \<longleftrightarrow>
     list_ex (\<lambda>l. list_ex (\<lambda>l'. l \<noteq> l') (param_lengths P)) (state_lengths pop) \<or>
     list_ex (\<lambda>r. list_ex (\<lambda>r'. length r \<noteq> length r') (exposed (current pop))) (exposed (current pop))"

section \<open>Example inputs\<close>

definition flux0 :: StateFlux where
  "flux0 = \<lparr>flux_susceptible = [Num 1], flux_exposed = [[Num 2]],
     infectious_severe = [Num 3], infectious_recovered = [Num 4],
     severe_critical = [Num 5], severe_recovered = [Num 7],
     critical_severe = [Num 1], critical_fatality = [Num 2],
     overflow_severe = [Num 1], overflow_fatality = [Num 3]\<rparr>"

definition pop0 :: SimulationTimePoint where
  "pop0 = \<lparr>
     current = \<lparr>susceptible = [Num 90, Num 80], exposed = [[Num 1, Num 2], [Num 3, Num 4]],
       infectious = [Num 6, Num 4], severe = [Num 2, Num 3], critical = [Num 5, Num 5],
       overflow = [Num 0, Num 0]\<rparr>,
     cumulative = \<lparr>cumulative_recovered = [Num 1, Num 1], cumulative_hospitalized = [Num 2, Num 2],
       cumulative_critical = [Num 1, Num 1], cumulative_fatality = [Num 0, Num 1]\<rparr>,
     time = Num 0\<rparr>"

definition params0 :: ModelParams where
  "params0 = \<lparr>ICUBeds = Num 7, populationServed = Num 200,
     importsPerDay = [Num 1, Num 2], frac_isolated = [Num (1 / 2), Num 0],
     rate_latency = Num (1 / 4), rate_infection = (\<lambda>t. Num 2),
     rate_recovery = [Num (1 / 4), Num (1 / 4)], rate_severe = [Num (1 / 8), Num (1 / 8)],
     rate_discharge = [Num (1 / 4), Num (1 / 4)], rate_critical = [Num (1 / 8), Num (1 / 8)],
     rate_stabilize = [Num (1 / 4), Num (1 / 4)], rate_fatality = [Num (1 / 8), Num (1 / 8)],
     rate_overflowFatality = [Num (1 / 2), Num (1 / 2)]\<rparr>"

definition tdot0 :: TimeDerivative where
  "tdot0 = \<lparr>
     current = \<lparr>susceptible = [Num (- 4), Num (- 200)], exposed = [[Num 1, Num (- 3)], [Num 0, Num 2]],
       infectious = [Num 2, Num 1], severe = [Num 1, Num (- 1)], critical = [Num 2, Num (- 1)],
       overflow = [Num 0, Num 0]\<rparr>,
     cumulative = \<lparr>cumulative_recovered = [Num 1, Num 0], cumulative_hospitalized = [Num 2, Num 0],
       cumulative_critical = [Num 1, Num 1], cumulative_fatality = [Num 0, Num 1]\<rparr>\<rparr>"

definition zero0 :: TimeDerivative where
  "zero0 = \<lparr>
     current = \<lparr>susceptible = [Num 0, Num 0], exposed = [[Num 0, Num 0], [Num 0, Num 0]],
       infectious = [Num 0, Num 0], severe = [Num 0, Num 0], critical = [Num 0, Num 0],
       overflow = [Num 0, Num 0]\<rparr>,
     cumulative = \<lparr>cumulative_recovered = [Num 0, Num 0], cumulative_hospitalized = [Num 0, Num 0],
       cumulative_critical = [Num 0, Num 0], cumulative_fatality = [Num 0, Num 0]\<rparr>\<rparr>"

text \<open>A state whose two exposed chains differ in length, parameters for three age
  groups, a clock and a sampler.\<close>

definition pop1 :: SimulationTimePoint where
  "pop1 = pop0\<lparr>current := (current pop0)\<lparr>exposed := [[Num 1, Num 2], [Num 3]]\<rparr>\<rparr>"

definition params1 :: ModelParams where
  "params1 = \<lparr>ICUBeds = Num 7, populationServed = Num 200,
     importsPerDay = [Num 1, Num 2, Num 3], frac_isolated = [Num (1 / 2), Num 0, Num 0],
     rate_latency = Num (1 / 4), rate_infection = (\<lambda>t. Num 2),
     rate_recovery = [Num (1 / 4), Num (1 / 4), Num (1 / 4)],
     rate_severe = [Num (1 / 8), Num (1 / 8), Num (1 / 8)],
     rate_discharge = [Num (1 / 4), Num (1 / 4), Num (1 / 4)],
     rate_critical = [Num (1 / 8), Num (1 / 8), Num (1 / 8)],
     rate_stabilize = [Num (1 / 4), Num (1 / 4), Num (1 / 4)],
     rate_fatality = [Num (1 / 8), Num (1 / 8), Num (1 / 8)],
     rate_overflowFatality = [Num (1 / 2), Num (1 / 2), Num (1 / 2)]\<rparr>"

definition clock0 :: "nat \<Rightarrow> num" where
  "clock0 i = Num 0"

definition sample0 :: "num \<Rightarrow> num" where
  "sample0 x = x"

text \<open>A state with two age groups and one exposed chain.\<close>

definition pop2 :: SimulationTimePoint where
  "pop2 = pop0\<lparr>current := (current pop0)\<lparr>exposed := [[Num 1, Num 2]]\<rparr>\<rparr>"





section \<open>Basic facts\<close>

lemma andThen_Inr_iff: "andThen r f = Inr y \<longleftrightarrow> (\<exists>v. r = Inr v \<and> f v = Inr y)"
  by (cases r) (auto simp: andThen_def)

lemma andThen_simps: "andThen (Inr v) f = f v" "andThen (Inl e) f = Inl e"
  by (simp_all add: andThen_def)

lemma elem_nth: "i < length xs \<Longrightarrow> elem xs i = xs ! i"
  by (simp add: elem_def)

lemma foldl_plus_Num: "foldl (\<lambda>a b. a + b) (Num a) (map Num rs) = Num (a + sum_list rs)"
  by (induction rs arbitrary: a) (simp_all add: add.assoc)

lemma sum_js_Num: "sum_js (map Num rs) = Num (sum_list rs)"
  by (simp add: sum_js_def zero_num_def foldl_plus_Num)

section \<open>The cumulative derivatives\<close>

text \<open>
  Claim C6. Whenever the flux set has a chain for each of its age groups,
  \<open>derivative\<close> returns, and for every age group the cumulative hospitalized derivative
  is twice the infectious-to-severe flux, the cumulative critical derivative is twice
  the severe-to-recovered flux, the cumulative recovered derivative is the sum of the
  infectious-to-recovered and severe-to-recovered fluxes, and the cumulative fatality
  derivative is the sum of the critical-to-fatality and overflow-to-fatality fluxes.
\<close>

theorem derivative_cumulative:
  assumes "length (flux_susceptible flux) \<le> length (flux_exposed flux)"
  shows "\<exists>grad. derivative flux = Inr grad \<and>
    (\<forall>age < length (flux_susceptible flux).
       cumulative_hospitalized (cumulative grad) ! age = Num 2 * elem (infectious_severe flux) age \<and>
       cumulative_critical (cumulative grad) ! age = Num 2 * elem (severe_recovered flux) age \<and>
       cumulative_recovered (cumulative grad) ! age =
         elem (infectious_recovered flux) age + elem (severe_recovered flux) age \<and>
       cumulative_fatality (cumulative grad) ! age =
         elem (critical_fatality flux) age + elem (overflow_fatality flux) age)"
proof -
  have twice: "x + x = Num 2 * x" for x :: num
    by (cases x) simp_all
  from assms show ?thesis
    by (simp add: derivative_def Let_def twice)
qed

theorem derivative_cumulative_witness:
  "length (flux_susceptible flux0) \<le> length (flux_exposed flux0) \<and>
   (\<exists>grad. derivative flux0 = Inr grad \<and>
     cumulative_hospitalized (cumulative grad) ! 0 = Num 6 \<and>
     cumulative_critical (cumulative grad) ! 0 = Num 14 \<and>
     cumulative_recovered (cumulative grad) ! 0 = Num 11 \<and>
     cumulative_fatality (cumulative grad) ! 0 = Num 5)"
  using derivative_cumulative [of flux0]
  by (simp add: flux0_def elem_def)

section \<open>The fluxes\<close>

text \<open>
  Claim C5. Whenever the state has an exposed chain for each of its age groups,
  \<open>fluxes\<close> returns, and for every age group \<open>a\<close> the susceptible-to-exposed flux is
  \<open>importsPerDay[a] + (1 - isolated[a]) * infection(time) * susceptible[a] * fracInfected\<close>,
  where \<open>fracInfected\<close> is the sum of the infectious array divided by
  \<open>populationServed\<close>, and the flux out of stage \<open>i\<close> of the exposed chain is
  \<open>latency * exposed[a][i] * numStages\<close>, with \<open>numStages\<close> the length of the chain of
  that age group. The equations are stated in the arithmetic of the program (left to
  right, \<open>NaN\<close> for a missing parameter) and, for operands that are numbers and a
  population other than zero, in real arithmetic with the sum of the infectious array.
\<close>

theorem fluxes_formulas:
  assumes "length (infectious (current pop)) \<le> length (exposed (current pop))"
  shows "\<exists>flux. fluxes t pop P = Inr flux \<and>
    (\<forall>a < length (infectious (current pop)).
       flux_susceptible flux ! a =
         elem (importsPerDay P) a +
         (1 - elem (frac_isolated P) a) * rate_infection P t * elem (susceptible (current pop)) a *
         (sum_js (infectious (current pop)) / populationServed P) \<and>
       (\<forall>imp iso \<beta> s infs N.
          elem (importsPerDay P) a = Num imp \<and> elem (frac_isolated P) a = Num iso \<and>
          rate_infection P t = Num \<beta> \<and> elem (susceptible (current pop)) a = Num s \<and>
          infectious (current pop) = map Num infs \<and> populationServed P = Num N \<and> N \<noteq> 0 \<longrightarrow>
          flux_susceptible flux ! a = Num (imp + (1 - iso) * \<beta> * s * (sum_list infs / N))) \<and>
       length (flux_exposed flux ! a) = length (exposed (current pop) ! a) \<and>
       (\<forall>i < length (exposed (current pop) ! a).
          flux_exposed flux ! a ! i =
            rate_latency P * (exposed (current pop) ! a ! i) *
            Num (real (length (exposed (current pop) ! a))) \<and>
          (\<forall>l e. rate_latency P = Num l \<and> exposed (current pop) ! a ! i = Num e \<longrightarrow>
             flux_exposed flux ! a ! i = Num (l * e * real (length (exposed (current pop) ! a))))))"
  using assms by (auto simp: fluxes_def Let_def sum_js_Num one_num_def)

theorem fluxes_formulas_witness:
  "length (infectious (current pop0)) \<le> length (exposed (current pop0)) \<and>
   (\<exists>flux. fluxes (Num 0) pop0 params0 = Inr flux \<and>
      flux_susceptible flux ! 0 = Num (11 / 2) \<and>
      flux_susceptible flux ! 1 = Num 10 \<and>
      flux_exposed flux ! 1 ! 0 = Num (3 / 2) \<and>
      flux_exposed flux ! 1 ! 1 = Num 2)"
proof -
  have h: "length (infectious (current pop0)) \<le> length (exposed (current pop0))"
    by (simp add: pop0_def)
  have s: "sum_js [Num 6, Num 4] = Num 10"
    by (simp add: sum_js_def zero_num_def)
  from fluxes_formulas [OF h, of "Num 0" params0] obtain flux where
    f: "fluxes (Num 0) pop0 params0 = Inr flux" and
    g: "\<forall>a < length (infectious (current pop0)).
       flux_susceptible flux ! a =
         elem (importsPerDay params0) a +
         (1 - elem (frac_isolated params0) a) * rate_infection params0 (Num 0) * elem (susceptible (current pop0)) a *
         (sum_js (infectious (current pop0)) / populationServed params0) \<and>
       length (flux_exposed flux ! a) = length (exposed (current pop0) ! a) \<and>
       (\<forall>i < length (exposed (current pop0) ! a).
          flux_exposed flux ! a ! i =
            rate_latency params0 * (exposed (current pop0) ! a ! i) *
            Num (real (length (exposed (current pop0) ! a))))"
    by blast
  have "flux_susceptible flux ! 0 = Num (11 / 2)" "flux_susceptible flux ! 1 = Num 10"
    "flux_exposed flux ! 1 ! 0 = Num (3 / 2)" "flux_exposed flux ! 1 ! 1 = Num 2"
    using g by (simp_all add: s pop0_def params0_def elem_def one_num_def)
  with h f show ?thesis by blast
qed

section \<open>Facts about the redistribution\<close>

lemma zero_le_num_iff: "(0::num) \<le> x \<longleftrightarrow> (\<exists>r. x = Num r \<and> 0 \<le> r)"
  by (cases x) (simp_all add: zero_num_def)

lemma gz_nonneg: "0 \<le> gz x"
  by (cases x) (simp_all add: gz_def zero_num_def)

lemma gz_Num: "gz (Num r) = Num (max 0 r)"
  by (simp add: gz_def zero_num_def max_def)

lemma gz_NaN: "gz NaN = Num 0"
  by (simp add: gz_def zero_num_def)

lemma nonneg_iff: "nonneg xs \<longleftrightarrow> (\<exists>rs. xs = map Num rs \<and> (\<forall>r\<in>set rs. 0 \<le> r))"
proof
  assume "nonneg xs"
  then have "\<forall>x\<in>set xs. x = Num (val x) \<and> 0 \<le> val x"
    by (auto simp: nonneg_def list_all_iff zero_le_num_iff)
  then have "xs = map Num (map val xs) \<and> (\<forall>r\<in>set (map val xs). 0 \<le> r)"
    by (auto simp: map_idI)
  then show "\<exists>rs. xs = map Num rs \<and> (\<forall>r\<in>set rs. 0 \<le> r)"
    by blast
next
  assume "\<exists>rs. xs = map Num rs \<and> (\<forall>r\<in>set rs. 0 \<le> r)"
  then show "nonneg xs"
    by (auto simp: nonneg_def list_all_iff zero_num_def)
qed

lemma sum_list_update_real:
  "i < length xs \<Longrightarrow> sum_list (xs[i := v]) = sum_list xs - xs ! i + (v::real)"
  by (induction xs arbitrary: i) (auto split: nat.splits)

lemma sum_list_all_zero: "(\<forall>i<length xs. xs ! i = (0::real)) \<Longrightarrow> sum_list xs = 0"
proof -
  assume "\<forall>i<length xs. xs ! i = (0::real)"
  then have "\<forall>x\<in>set xs. x = 0"
    by (auto simp: in_set_conv_nth)
  then show ?thesis
    by (induction xs) simp_all
qed

text \<open>The loops of the program compute the specification's passes.\<close>

lemma displace_refines:
  "k \<le> length c \<Longrightarrow> length ov = length c \<Longrightarrow>
   displace k (lift (c, ov, f)) = lift (spec_displace k (c, ov, f))"
proof (induction k arbitrary: c ov f)
  case 0
  then show ?case by simp
next
  case (Suc k)
  have step: "displace k (map Num c', map Num ov', Num f') = lift (spec_displace k (c', ov', f'))"
    if "length c' = length c" "length ov' = length c" for c' ov' f'
    using Suc.IH [of c' ov' f'] Suc.prems that by (simp add: lift_def)
  from Suc.prems have k: "k < length c" "k < length ov"
    by simp_all
  show ?case
  proof (cases "f < 0")
    case False
    then show ?thesis
      by (simp add: lift_def zero_num_def)
  next
    case True
    show ?thesis
    proof (cases "c ! k > - f")
      case True
      then have m: "min (c ! k) (- f) = - f"
        by simp
      from \<open>f < 0\<close> True k Suc.prems show ?thesis
        using step [of "c[k := c ! k + f]" "ov[k := ov ! k - f]" 0]
        by (simp add: lift_def zero_num_def elem_def store_def map_update m Let_def)
    next
      case False
      then have m: "min (c ! k) (- f) = c ! k"
        by simp
      from \<open>f < 0\<close> False k Suc.prems show ?thesis
        using step [of "c[k := 0]" "ov[k := ov ! k + c ! k]" "f + c ! k"]
        by (simp add: lift_def zero_num_def elem_def store_def map_update m Let_def)
    qed
  qed
qed

lemma readmit_refines:
  "m \<le> length c \<Longrightarrow> length ov = length c \<Longrightarrow>
   readmit a m (lift (c, ov, f)) = lift (spec_readmit a m (c, ov, f))"
proof (induction "m - a" arbitrary: a c ov f)
  case 0
  then show ?case by (simp add: lift_def)
next
  case (Suc d)
  then have a: "a < m" "a < length c" "a < length ov" "d = m - Suc a"
    by simp_all
  have step: "readmit (Suc a) m (map Num c', map Num ov', Num f') = lift (spec_readmit (Suc a) m (c', ov', f'))"
    if "length c' = length c" "length ov' = length c" for c' ov' f'
    using Suc.hyps(1) [of "Suc a" c' ov' f'] Suc.prems that a by (simp add: lift_def)
  show ?case
  proof (cases "f > 0")
    case False
    then show ?thesis
      by (simp add: lift_def zero_num_def)
  next
    case True
    show ?thesis
    proof (cases "ov ! a > f")
      case True
      then have m: "min (ov ! a) f = f"
        by simp
      from \<open>f > 0\<close> True a Suc.prems show ?thesis
        using step [of "c[a := c ! a + f]" "ov[a := ov ! a - f]" 0]
        by (simp add: lift_def zero_num_def elem_def store_def map_update m Let_def)
    next
      case False
      then have m: "min (ov ! a) f = ov ! a"
        by simp
      from \<open>f > 0\<close> False a Suc.prems show ?thesis
        using step [of "c[a := c ! a + ov ! a]" "ov[a := 0]" "f - ov ! a"]
        by (simp add: lift_def zero_num_def elem_def store_def map_update m Let_def)
    qed
  qed
qed


lemma spec_displace_nonneg_free:
  "0 \<le> f \<Longrightarrow> spec_displace k (c, ov, f) = (c, ov, f)"
  by (cases k) simp_all

text \<open>One round of the pass over capacity, with the amount moved named \<open>m\<close>.\<close>

lemma spec_displace_Suc:
  assumes "f < 0"
  obtains m where "spec_displace (Suc k) (c, ov, f) =
      spec_displace k (c[k := c ! k - m], ov[k := ov ! k + m], f + m)"
    and "m = c ! k \<or> m = - f" and "m \<le> c ! k" and "m \<le> - f"
proof
  from assms show "spec_displace (Suc k) (c, ov, f) =
      spec_displace k (c[k := c ! k - min (c ! k) (- f)], ov[k := ov ! k + min (c ! k) (- f)],
        f + min (c ! k) (- f))"
    by (simp add: Let_def)
  show "min (c ! k) (- f) = c ! k \<or> min (c ! k) (- f) = - f"
    by (simp add: min_def)
  show "min (c ! k) (- f) \<le> c ! k" "min (c ! k) (- f) \<le> - f"
    by simp_all
qed

lemma spec_displace_length:
  "spec_displace k (c, ov, f) = (c', ov', f') \<Longrightarrow> length c' = length c \<and> length ov' = length ov"
proof (induction k arbitrary: c ov f)
  case 0
  then show ?case by simp
next
  case (Suc k)
  show ?case
  proof (cases "f < 0")
    case True
    then obtain m where "spec_displace (Suc k) (c, ov, f) =
        spec_displace k (c[k := c ! k - m], ov[k := ov ! k + m], f + m)"
      by (rule spec_displace_Suc)
    with Suc.prems have "spec_displace k (c[k := c ! k - m], ov[k := ov ! k + m], f + m) = (c', ov', f')"
      by simp
    from Suc.IH [OF this] show ?thesis by simp
  next
    case False
    with Suc.prems show ?thesis by simp
  qed
qed

lemma spec_displace_above:
  "spec_displace k (c, ov, f) = (c', ov', f') \<Longrightarrow> k \<le> i \<Longrightarrow> c' ! i = c ! i \<and> ov' ! i = ov ! i"
proof (induction k arbitrary: c ov f)
  case 0
  then show ?case by simp
next
  case (Suc k)
  show ?case
  proof (cases "f < 0")
    case True
    then obtain m where "spec_displace (Suc k) (c, ov, f) =
        spec_displace k (c[k := c ! k - m], ov[k := ov ! k + m], f + m)"
      by (rule spec_displace_Suc)
    with Suc.prems have "spec_displace k (c[k := c ! k - m], ov[k := ov ! k + m], f + m) = (c', ov', f')"
      by simp
    from Suc.IH [OF this] Suc.prems(2) show ?thesis by simp
  next
    case False
    with Suc.prems show ?thesis by simp
  qed
qed

lemma spec_displace_total:
  "k \<le> length c \<Longrightarrow> spec_displace k (c, ov, f) = (c', ov', f') \<Longrightarrow>
   f' + sum_list c' = f + sum_list c"
proof (induction k arbitrary: c ov f)
  case 0
  then show ?case by simp
next
  case (Suc k)
  show ?case
  proof (cases "f < 0")
    case True
    then obtain m where "spec_displace (Suc k) (c, ov, f) =
        spec_displace k (c[k := c ! k - m], ov[k := ov ! k + m], f + m)"
      by (rule spec_displace_Suc)
    with Suc.prems have r: "spec_displace k (c[k := c ! k - m], ov[k := ov ! k + m], f + m) = (c', ov', f')"
      by simp
    from Suc.prems have "k \<le> length (c[k := c ! k - m])" "k < length c"
      by simp_all
    from Suc.IH [OF this(1) r] this(2) show ?thesis
      by (simp add: sum_list_update_real)
  next
    case False
    with Suc.prems show ?thesis by simp
  qed
qed

lemma spec_displace_pair:
  "k \<le> length c \<Longrightarrow> length ov = length c \<Longrightarrow> spec_displace k (c, ov, f) = (c', ov', f') \<Longrightarrow>
   i < length c \<Longrightarrow> c' ! i + ov' ! i = c ! i + ov ! i"
proof (induction k arbitrary: c ov f)
  case 0
  then show ?case by simp
next
  case (Suc k)
  show ?case
  proof (cases "f < 0")
    case True
    then obtain m where "spec_displace (Suc k) (c, ov, f) =
        spec_displace k (c[k := c ! k - m], ov[k := ov ! k + m], f + m)"
      by (rule spec_displace_Suc)
    with Suc.prems have r: "spec_displace k (c[k := c ! k - m], ov[k := ov ! k + m], f + m) = (c', ov', f')"
      by simp
    from Suc.prems have "k \<le> length (c[k := c ! k - m])"
      "length (ov[k := ov ! k + m]) = length (c[k := c ! k - m])" "i < length (c[k := c ! k - m])"
      by simp_all
    from Suc.IH [OF this(1,2) r this(3)]
    have "c' ! i + ov' ! i = (c[k := c ! k - m]) ! i + (ov[k := ov ! k + m]) ! i" .
    with Suc.prems show ?thesis
      by (cases "i = k") simp_all
  next
    case False
    with Suc.prems show ?thesis by simp
  qed
qed

lemma spec_displace_free:
  "spec_displace k (c, ov, f) = (c', ov', f') \<Longrightarrow> f < 0 \<Longrightarrow> f' \<le> 0"
proof (induction k arbitrary: c ov f)
  case 0
  then show ?case by simp
next
  case (Suc k)
  from \<open>f < 0\<close> obtain m where "spec_displace (Suc k) (c, ov, f) =
      spec_displace k (c[k := c ! k - m], ov[k := ov ! k + m], f + m)" and m: "m \<le> - f"
    by (rule spec_displace_Suc)
  with Suc.prems have r: "spec_displace k (c[k := c ! k - m], ov[k := ov ! k + m], f + m) = (c', ov', f')"
    by simp
  show ?case
  proof (cases "f + m < 0")
    case True
    from Suc.IH [OF r True] show ?thesis .
  next
    case False
    with m have "f + m = 0" by simp
    with r show ?thesis by (simp add: spec_displace_nonneg_free)
  qed
qed

lemma spec_displace_emptied:
  "k \<le> length c \<Longrightarrow> spec_displace k (c, ov, f) = (c', ov', f') \<Longrightarrow> f' < 0 \<Longrightarrow> i < k \<Longrightarrow> c' ! i = 0"
proof (induction k arbitrary: c ov f)
  case 0
  then show ?case by simp
next
  case (Suc k)
  have f: "f < 0"
  proof (rule ccontr)
    assume "\<not> f < 0"
    with Suc.prems(2) have "f' = f" by simp
    with \<open>\<not> f < 0\<close> Suc.prems(3) show False by simp
  qed
  then obtain m where "spec_displace (Suc k) (c, ov, f) =
      spec_displace k (c[k := c ! k - m], ov[k := ov ! k + m], f + m)"
    and m: "m = c ! k \<or> m = - f"
    by (rule spec_displace_Suc)
  with Suc.prems have r: "spec_displace k (c[k := c ! k - m], ov[k := ov ! k + m], f + m) = (c', ov', f')"
    by simp
  have neg: "f + m < 0"
  proof (rule ccontr)
    assume "\<not> f + m < 0"
    then have "0 \<le> f + m" by simp
    with r have "f' = f + m" by (simp add: spec_displace_nonneg_free)
    with \<open>0 \<le> f + m\<close> Suc.prems(3) show False by simp
  qed
  with m have mk: "m = c ! k" by auto
  from Suc.prems have kl: "k < length c" by simp
  show ?case
  proof (cases "i = k")
    case True
    from spec_displace_above [OF r, of k] have "c' ! k = (c[k := c ! k - m]) ! k"
      by simp
    with True mk kl show ?thesis by simp
  next
    case False
    with Suc.prems have ik: "i < k" by simp
    from kl have "k \<le> length (c[k := c ! k - m])" by simp
    from Suc.IH [OF this r Suc.prems(3) ik] show ?thesis .
  qed
qed

lemma nonneg_update: "\<forall>x\<in>set xs. (0::real) \<le> x \<Longrightarrow> 0 \<le> v \<Longrightarrow> \<forall>x\<in>set (xs[i := v]). 0 \<le> x"
  using set_update_subset_insert [of xs i v] by auto

lemma spec_displace_nonneg:
  "k \<le> length c \<Longrightarrow> length ov = length c \<Longrightarrow> spec_displace k (c, ov, f) = (c', ov', f') \<Longrightarrow>
   \<forall>x\<in>set c. 0 \<le> x \<Longrightarrow> \<forall>x\<in>set ov. 0 \<le> x \<Longrightarrow>
   (\<forall>x\<in>set c'. 0 \<le> x) \<and> (\<forall>x\<in>set ov'. 0 \<le> x)"
proof (induction k arbitrary: c ov f)
  case 0
  then show ?case by simp
next
  case (Suc k)
  show ?case
  proof (cases "f < 0")
    case False
    with Suc.prems show ?thesis by simp
  next
    case True
    then obtain m where "spec_displace (Suc k) (c, ov, f) =
        spec_displace k (c[k := c ! k - m], ov[k := ov ! k + m], f + m)"
      and m: "m \<le> c ! k" "m = c ! k \<or> m = - f"
      by (rule spec_displace_Suc)
    with Suc.prems have r: "spec_displace k (c[k := c ! k - m], ov[k := ov ! k + m], f + m) = (c', ov', f')"
      by simp
    from Suc.prems have ck: "0 \<le> c ! k" "0 \<le> ov ! k"
      by simp_all
    with True m have v: "0 \<le> c ! k - m" "0 \<le> ov ! k + m"
      by auto
    have 1: "\<forall>x\<in>set (c[k := c ! k - m]). 0 \<le> x"
      using Suc.prems(4) v(1) by (rule nonneg_update)
    have 2: "\<forall>x\<in>set (ov[k := ov ! k + m]). 0 \<le> x"
      using Suc.prems(5) v(2) by (rule nonneg_update)
    from Suc.prems have "k \<le> length (c[k := c ! k - m])"
      "length (ov[k := ov ! k + m]) = length (c[k := c ! k - m])"
      by simp_all
    from Suc.IH [OF this r 1 2] show ?thesis .
  qed
qed


lemma spec_readmit_nonpos_free:
  "f \<le> 0 \<Longrightarrow> spec_readmit a m (c, ov, f) = (c, ov, f)"
  by simp

lemma spec_readmit_done:
  "m \<le> a \<Longrightarrow> spec_readmit a m (c, ov, f) = (c, ov, f)"
  by simp

text \<open>One round of the pass under capacity, with the amount moved named \<open>mv\<close>.\<close>

lemma spec_readmit_step:
  assumes "0 < f" "a < m"
  obtains mv where "spec_readmit a m (c, ov, f) =
      spec_readmit (Suc a) m (c[a := c ! a + mv], ov[a := ov ! a - mv], f - mv)"
    and "mv = ov ! a \<or> mv = f" and "mv \<le> ov ! a" and "mv \<le> f"
proof
  from assms show "spec_readmit a m (c, ov, f) =
      spec_readmit (Suc a) m (c[a := c ! a + min (ov ! a) f], ov[a := ov ! a - min (ov ! a) f],
        f - min (ov ! a) f)"
    by (simp add: Let_def)
  show "min (ov ! a) f = ov ! a \<or> min (ov ! a) f = f"
    by (simp add: min_def)
  show "min (ov ! a) f \<le> ov ! a" "min (ov ! a) f \<le> f"
    by simp_all
qed

lemma spec_readmit_props:
  assumes "m \<le> length c" "length ov = length c" "spec_readmit a m (c, ov, f) = (c', ov', f')"
  shows "length c' = length c \<and> length ov' = length c \<and>
    f' + sum_list c' = f + sum_list c \<and>
    (\<forall>i<length c. c' ! i + ov' ! i = c ! i + ov ! i) \<and>
    (0 \<le> f \<longrightarrow> 0 \<le> f') \<and>
    ((\<forall>x\<in>set c. 0 \<le> x) \<and> (\<forall>x\<in>set ov. 0 \<le> x) \<longrightarrow>
       (\<forall>x\<in>set c'. 0 \<le> x) \<and> (\<forall>x\<in>set ov'. 0 \<le> x))"
  using assms
proof (induction "m - a" arbitrary: a c ov f)
  case 0
  then have "spec_readmit a m (c, ov, f) = (c, ov, f)"
    by (simp del: spec_readmit.simps add: spec_readmit_done)
  with 0 show ?case by simp
next
  case (Suc d)
  then have a: "a < m" "a < length c" "d = m - Suc a"
    by simp_all
  show ?case
  proof (cases "0 < f")
    case False
    then have "spec_readmit a m (c, ov, f) = (c, ov, f)"
      by (simp del: spec_readmit.simps add: spec_readmit_nonpos_free)
    with Suc.prems show ?thesis by simp
  next
    case True
    from True a(1) obtain mv where e: "spec_readmit a m (c, ov, f) =
        spec_readmit (Suc a) m (c[a := c ! a + mv], ov[a := ov ! a - mv], f - mv)"
      and mv: "mv = ov ! a \<or> mv = f" "mv \<le> ov ! a" "mv \<le> f"
      by (rule spec_readmit_step)
    let ?c = "c[a := c ! a + mv]" and ?ov = "ov[a := ov ! a - mv]"
    from e Suc.prems have r: "spec_readmit (Suc a) m (?c, ?ov, f - mv) = (c', ov', f')"
      by simp
    from Suc.prems have l: "m \<le> length ?c" "length ?ov = length ?c"
      by simp_all
    note IH = Suc.hyps(1) [OF a(3) l r]
    have len: "length c' = length c \<and> length ov' = length c"
      using IH by simp
    have tot: "f' + sum_list c' = f + sum_list c"
      using IH a(2) by (simp add: sum_list_update_real)
    have pair: "c' ! i + ov' ! i = c ! i + ov ! i" if "i < length c" for i
    proof -
      from IH that have "c' ! i + ov' ! i = ?c ! i + ?ov ! i"
        by simp
      with that Suc.prems(2) show ?thesis
        by (cases "i = a") simp_all
    qed
    have free: "0 \<le> f'"
      using IH mv(3) by simp
    have nn: "(\<forall>x\<in>set c'. 0 \<le> x) \<and> (\<forall>x\<in>set ov'. 0 \<le> x)"
      if h: "\<forall>x\<in>set c. 0 \<le> x" "\<forall>x\<in>set ov. 0 \<le> x"
    proof -
      from h a(2) Suc.prems(2) have "0 \<le> c ! a" "0 \<le> ov ! a"
        by simp_all
      with mv True have v: "0 \<le> c ! a + mv" "0 \<le> ov ! a - mv"
        by auto
      have "\<forall>x\<in>set ?c. 0 \<le> x"
        using h(1) v(1) by (rule nonneg_update)
      moreover have "\<forall>x\<in>set ?ov. 0 \<le> x"
        using h(2) v(2) by (rule nonneg_update)
      ultimately show ?thesis
        using IH by blast
    qed
    from len tot pair free nn show ?thesis
      by blast
  qed
qed


text \<open>Both passes together, on the real arrays.\<close>

lemma spec_passes_props:
  assumes "m \<le> length c" "length ov = length c"
    and "spec_readmit 0 m (spec_displace m (c, ov, f)) = (c', ov', f')"
  shows "length c' = length c" "length ov' = length c"
    "f' + sum_list c' = f + sum_list c"
    "\<forall>i<length c. c' ! i + ov' ! i = c ! i + ov ! i"
    "(\<forall>x\<in>set c. 0 \<le> x) \<Longrightarrow> (\<forall>x\<in>set ov. 0 \<le> x) \<Longrightarrow>
       (\<forall>x\<in>set c'. 0 \<le> x) \<and> (\<forall>x\<in>set ov'. 0 \<le> x)"
    "(\<forall>i. m \<le> i \<and> i < length c \<longrightarrow> c ! i = 0) \<Longrightarrow> 0 \<le> f + sum_list c \<Longrightarrow> 0 \<le> f'"
proof -
  obtain c1 ov1 f1 where d: "spec_displace m (c, ov, f) = (c1, ov1, f1)"
    by (cases "spec_displace m (c, ov, f)")
  with assms(3) have r: "spec_readmit 0 m (c1, ov1, f1) = (c', ov', f')"
    by simp
  from spec_displace_length [OF d] assms have l1: "length c1 = length c" "length ov1 = length c"
    by simp_all
  then have l: "m \<le> length c1" "length ov1 = length c1"
    using assms by simp_all
  note R = spec_readmit_props [OF l r]
  from R l1 show "length c' = length c" "length ov' = length c"
    by simp_all
  from R spec_displace_total [OF assms(1) d] show "f' + sum_list c' = f + sum_list c"
    by simp
  show "\<forall>i<length c. c' ! i + ov' ! i = c ! i + ov ! i"
    using R l1 spec_displace_pair [OF assms(1,2) d] by simp
  show "(\<forall>x\<in>set c'. 0 \<le> x) \<and> (\<forall>x\<in>set ov'. 0 \<le> x)"
    if "\<forall>x\<in>set c. 0 \<le> x" "\<forall>x\<in>set ov. 0 \<le> x"
    using R spec_displace_nonneg [OF assms(1,2) d that] by blast
  show "0 \<le> f'" if z: "\<forall>i. m \<le> i \<and> i < length c \<longrightarrow> c ! i = 0" and b: "0 \<le> f + sum_list c"
  proof -
    have "0 \<le> f1"
    proof (rule ccontr)
      assume "\<not> 0 \<le> f1"
      then have n: "f1 < 0" by simp
      have "c1 ! i = 0" if "i < length c1" for i
      proof (cases "i < m")
        case True
        from spec_displace_emptied [OF assms(1) d n True] show ?thesis .
      next
        case False
        then have "m \<le> i" by simp
        with spec_displace_above [OF d this] z that l1 show ?thesis by simp
      qed
      then have "sum_list c1 = 0"
        by (simp add: sum_list_all_zero)
      with spec_displace_total [OF assms(1) d] b n show False by simp
    qed
    with R show ?thesis by blast
  qed
qed

lemma spec_passes_eq_redistribute:
  assumes "length ov = length c"
  shows "(case spec_readmit 0 (length c) (spec_displace (length c) (c, ov, b - sum_list c)) of
           (c', ov', f') \<Rightarrow> (c', ov')) = spec_redistribute b (c, ov)"
proof -
  let ?f = "b - sum_list c"
  obtain c1 ov1 f1 where d: "spec_displace (length c) (c, ov, ?f) = (c1, ov1, f1)"
    by (cases "spec_displace (length c) (c, ov, ?f)")
  show ?thesis
  proof (cases "?f < 0")
    case True
    from spec_displace_free [OF d True] have "spec_readmit 0 (length c) (c1, ov1, f1) = (c1, ov1, f1)"
      by (simp del: spec_readmit.simps add: spec_readmit_nonpos_free)
    with d True show ?thesis
      by (simp del: spec_readmit.simps add: spec_redistribute_def)
  next
    case False
    then have "spec_displace (length c) (c, ov, ?f) = (c, ov, ?f)"
      by (simp add: spec_displace_nonneg_free)
    with False show ?thesis
      by (cases "0 < ?f") (simp_all del: spec_readmit.simps add: spec_redistribute_def spec_readmit_nonpos_free)
  qed
qed

text \<open>The second part of \<open>advanceState\<close> on a state of finite numbers.\<close>

lemma redistribute_Num:
  assumes "critical (current e) = map Num c" "overflow (current e) = map Num ov"
    and "length ov = length c" "m \<le> length c"
    and "spec_readmit 0 m (spec_displace m (c, ov, b - sum_list c)) = (c', ov', f')"
  shows "redistribute (Num b) m e =
    e\<lparr>current := (current e)\<lparr>critical := map Num c', overflow := map Num ov'\<rparr>\<rparr>"
proof -
  obtain c1 ov1 f1 where d: "spec_displace m (c, ov, b - sum_list c) = (c1, ov1, f1)"
    by (cases "spec_displace m (c, ov, b - sum_list c)")
  from spec_displace_length [OF d] assms have l: "m \<le> length c1" "length ov1 = length c1"
    by simp_all
  have "displace m (map Num c, map Num ov, Num (b - sum_list c)) = lift (c1, ov1, f1)"
    using displace_refines [OF assms(4,3), of "b - sum_list c"] d by (simp add: lift_def)
  moreover have "readmit 0 m (lift (c1, ov1, f1)) = lift (c', ov', f')"
    using readmit_refines [OF l, of 0 f1] assms(5) d by simp
  ultimately show ?thesis
    using assms(1,2) by (simp add: redistribute_def sum_js_Num lift_def)
qed

lemma displace_NaN: "displace k (crit, over, NaN) = (crit, over, NaN)"
  by (cases k) simp_all

lemma redistribute_NaN: "redistribute NaN m e = e"
proof -
  have "NaN - x = NaN" for x :: num
    by (cases x) simp_all
  then show ?thesis
    by (simp add: redistribute_def displace_NaN)
qed

section \<open>The state after \<open>advanceState\<close>\<close>

lemma nonneg_map_update: "nonneg (map (update dt p t) [0..<n])"
  by (simp add: nonneg_def list_all_iff update_def gz_nonneg)

lemma update_beyond: "length p \<le> i \<Longrightarrow> update dt p t i = Num 0"
  by (simp add: update_def elem_def gz_NaN)

lemma eulerUpdate_Inr:
  assumes "length (infectious (current pop)) \<le> length (exposed (current pop))"
    and "length (infectious (current pop)) \<le> length (exposed (current tdot))"
  obtains e where "eulerUpdate now pop tdot dt = Inr e"
    and "critical (current e) =
       map (update dt (critical (current pop)) (critical (current tdot))) [0..<length (infectious (current pop))]"
    and "overflow (current e) =
       map (update dt (overflow (current pop)) (overflow (current tdot))) [0..<length (infectious (current pop))]"
  using assms by (simp add: eulerUpdate_def Let_def)

text \<open>The critical and overflow arrays after the Euler update, as arrays of reals.\<close>

lemma eulerUpdate_icu:
  assumes "length (infectious (current pop)) \<le> length (exposed (current pop))"
    and "length (infectious (current pop)) \<le> length (exposed (current tdot))"
  obtains e c ov where "eulerUpdate now pop tdot dt = Inr e"
    and "critical (current e) = map Num c" and "overflow (current e) = map Num ov"
    and "length c = length (infectious (current pop))" and "length ov = length c"
    and "\<forall>x\<in>set c. 0 \<le> x" and "\<forall>x\<in>set ov. 0 \<le> x"
    and "\<forall>i. length (critical (current pop)) \<le> i \<and> i < length c \<longrightarrow> c ! i = 0"
proof -
  let ?n = "length (infectious (current pop))"
  from assms obtain e where e: "eulerUpdate now pop tdot dt = Inr e"
    and ec: "critical (current e) = map (update dt (critical (current pop)) (critical (current tdot))) [0..<?n]"
    and eo: "overflow (current e) = map (update dt (overflow (current pop)) (overflow (current tdot))) [0..<?n]"
    by (rule eulerUpdate_Inr)
  from ec obtain c where c: "critical (current e) = map Num c" "\<forall>x\<in>set c. 0 \<le> x"
    using nonneg_map_update nonneg_iff by metis
  from eo obtain ov where ov: "overflow (current e) = map Num ov" "\<forall>x\<in>set ov. 0 \<le> x"
    using nonneg_map_update nonneg_iff by metis
  from c(1) ec have lc: "length c = ?n"
    by (metis length_map length_upt minus_nat.diff_0)
  from ov(1) eo have lo: "length ov = ?n"
    by (metis length_map length_upt minus_nat.diff_0)
  have z: "c ! i = 0" if "length (critical (current pop)) \<le> i" "i < length c" for i
  proof -
    from that lc have "critical (current e) ! i = Num 0"
      by (simp add: ec update_beyond)
    with c(1) that show ?thesis by simp
  qed
  from e c ov lc lo z show ?thesis
    using that by simp
qed

lemma update_euler_clamp: "update dt p t age = euler_clamp dt (elem p age) (elem t age)"
  by (cases dt; cases "elem p age"; cases "elem t age") (simp_all add: update_def gz_Num gz_NaN)

lemma updateAt_euler_clamp: "updateAt dt p t i = euler_clamp dt (elem p i) (elem t i)"
  by (cases dt; cases "elem p i"; cases "elem t i") (simp_all add: updateAt_def gz_Num gz_NaN)

lemma map_update_euler_spec: "map (update dt p t) [0..<n] = euler_spec dt p t n"
  by (simp add: euler_spec_def update_euler_clamp)

lemma nonneg_exposedRow: "length t \<le> length p \<Longrightarrow> nonneg (exposedRow dt p t)"
  by (simp add: exposedRow_def nonneg_def list_all_iff updateAt_def gz_nonneg)

lemma exposedRow_nth:
  "i < length p \<Longrightarrow> exposedRow dt p t ! i = euler_clamp dt (p ! i) (elem t i)"
  by (simp add: exposedRow_def nth_append updateAt_euler_clamp elem_def)

lemma nonneg_map_Num: "\<forall>x\<in>set rs. 0 \<le> x \<Longrightarrow> nonneg (map Num rs)"
  by (simp add: nonneg_def list_all_iff zero_num_def)

text \<open>The whole state after the Euler update.\<close>

lemma eulerUpdate_fields:
  assumes "length (infectious (current pop)) \<le> length (exposed (current pop))"
    and "length (infectious (current pop)) \<le> length (exposed (current tdot))"
  shows "\<exists>e. eulerUpdate now pop tdot dt = Inr e \<and>
    susceptible (current e) = euler_spec dt (susceptible (current pop)) (susceptible (current tdot))
       (length (infectious (current pop))) \<and>
    infectious (current e) = euler_spec dt (infectious (current pop)) (infectious (current tdot))
       (length (infectious (current pop))) \<and>
    severe (current e) = euler_spec dt (severe (current pop)) (severe (current tdot))
       (length (infectious (current pop))) \<and>
    critical (current e) = euler_spec dt (critical (current pop)) (critical (current tdot))
       (length (infectious (current pop))) \<and>
    overflow (current e) = euler_spec dt (overflow (current pop)) (overflow (current tdot))
       (length (infectious (current pop))) \<and>
    cumulative_recovered (cumulative e) = euler_spec dt (cumulative_recovered (cumulative pop))
       (cumulative_recovered (cumulative tdot)) (length (infectious (current pop))) \<and>
    cumulative_hospitalized (cumulative e) = euler_spec dt (cumulative_hospitalized (cumulative pop))
       (cumulative_hospitalized (cumulative tdot)) (length (infectious (current pop))) \<and>
    cumulative_critical (cumulative e) = euler_spec dt (cumulative_critical (cumulative pop))
       (cumulative_critical (cumulative tdot)) (length (infectious (current pop))) \<and>
    cumulative_fatality (cumulative e) = euler_spec dt (cumulative_fatality (cumulative pop))
       (cumulative_fatality (cumulative tdot)) (length (infectious (current pop))) \<and>
    exposed (current e) = map (\<lambda>age. exposedRow dt (exposed (current pop) ! age)
       (exposed (current tdot) ! age)) [0..<length (infectious (current pop))] \<and>
    time e = now"
  using assms by (simp add: eulerUpdate_def Let_def map_update_euler_spec)

lemma nonneg_euler_spec: "nonneg (euler_spec dt p t n)"
  using nonneg_map_update [of dt p t n] by (simp add: map_update_euler_spec)


lemma nonneg_state_euler:
  assumes "eulerUpdate now pop tdot dt = Inr e"
    and "\<forall>age<length (infectious (current pop)).
       length (exposed (current tdot) ! age) \<le> length (exposed (current pop) ! age)"
  shows "nonneg_state e"
proof -
  from assms(1) have s: "length (infectious (current pop)) \<le> length (exposed (current pop))"
    "length (infectious (current pop)) \<le> length (exposed (current tdot))"
    by (auto simp: eulerUpdate_def Let_def split: if_splits)
  from eulerUpdate_fields [OF s, of now dt] assms show ?thesis
    by (auto simp: nonneg_state_def nonneg_euler_spec list_all_iff nonneg_exposedRow)
qed

text \<open>The redistribution keeps a state of non-negative fields non-negative.\<close>

lemma nonneg_state_redistribute:
  assumes "nonneg_state e" "length (overflow (current e)) = length (critical (current e))"
    and "m \<le> length (critical (current e))"
  shows "nonneg_state (redistribute nICUBeds m e)"
proof (cases nICUBeds)
  case NaN
  with assms(1) show ?thesis by (simp add: redistribute_NaN)
next
  case (Num b)
  from assms(1) obtain c ov where c: "critical (current e) = map Num c" "\<forall>x\<in>set c. 0 \<le> x"
    and ov: "overflow (current e) = map Num ov" "\<forall>x\<in>set ov. 0 \<le> x"
    unfolding nonneg_state_def nonneg_iff by blast
  from assms(2,3) c(1) ov(1) have l: "length ov = length c" "m \<le> length c"
    by simp_all
  obtain c' ov' f' where p: "spec_readmit 0 m (spec_displace m (c, ov, b - sum_list c)) = (c', ov', f')"
    by (cases "spec_readmit 0 m (spec_displace m (c, ov, b - sum_list c))")
  from spec_passes_props(5) [OF l(2,1) p c(2) ov(2)]
  have "nonneg (map Num c')" "nonneg (map Num ov')"
    by (simp_all add: nonneg_map_Num)
  with assms(1) show ?thesis
    by (simp add: Num redistribute_Num [OF c(1) ov(1) l p] nonneg_state_def)
qed

text \<open>
  Claim C2. For a state and a derivative of matching shape (a chain for each age group,
  no chain of the derivative longer than that of the state, a critical array no longer
  than the infectious array), every step size and every bed budget: the Euler update
  sets every stock and every cumulative field to \<open>max(0, x + dt * dx/dt)\<close>
  (\<open>euler_spec\<close>, \<open>euler_clamp\<close>), every field of the state it builds is at least zero,
  and so is every field of the state that \<open>advanceState\<close> returns after the bed
  redistribution.
\<close>

theorem advanceState_nonneg:
  assumes "length (infectious (current pop)) \<le> length (exposed (current pop))"
    and "length (infectious (current pop)) \<le> length (exposed (current tdot))"
    and "length (critical (current pop)) \<le> length (infectious (current pop))"
    and "\<forall>age<length (infectious (current pop)).
       length (exposed (current tdot) ! age) \<le> length (exposed (current pop) ! age)"
  shows "\<exists>e newPop. eulerUpdate now pop tdot dt = Inr e \<and>
    advanceState now pop tdot dt nICUBeds = Inr newPop \<and>
    susceptible (current e) = euler_spec dt (susceptible (current pop)) (susceptible (current tdot))
       (length (infectious (current pop))) \<and>
    infectious (current e) = euler_spec dt (infectious (current pop)) (infectious (current tdot))
       (length (infectious (current pop))) \<and>
    severe (current e) = euler_spec dt (severe (current pop)) (severe (current tdot))
       (length (infectious (current pop))) \<and>
    critical (current e) = euler_spec dt (critical (current pop)) (critical (current tdot))
       (length (infectious (current pop))) \<and>
    overflow (current e) = euler_spec dt (overflow (current pop)) (overflow (current tdot))
       (length (infectious (current pop))) \<and>
    cumulative_recovered (cumulative e) = euler_spec dt (cumulative_recovered (cumulative pop))
       (cumulative_recovered (cumulative tdot)) (length (infectious (current pop))) \<and>
    cumulative_hospitalized (cumulative e) = euler_spec dt (cumulative_hospitalized (cumulative pop))
       (cumulative_hospitalized (cumulative tdot)) (length (infectious (current pop))) \<and>
    cumulative_critical (cumulative e) = euler_spec dt (cumulative_critical (cumulative pop))
       (cumulative_critical (cumulative tdot)) (length (infectious (current pop))) \<and>
    cumulative_fatality (cumulative e) = euler_spec dt (cumulative_fatality (cumulative pop))
       (cumulative_fatality (cumulative tdot)) (length (infectious (current pop))) \<and>
    (\<forall>age<length (infectious (current pop)). \<forall>i<length (exposed (current pop) ! age).
       exposed (current e) ! age ! i =
         euler_clamp dt (exposed (current pop) ! age ! i) (elem (exposed (current tdot) ! age) i)) \<and>
    nonneg_state e \<and>
    newPop = redistribute nICUBeds (length (critical (current pop))) e \<and>
    nonneg_state newPop"
proof -
  let ?n = "length (infectious (current pop))"
  from eulerUpdate_fields [OF assms(1,2), of now dt] obtain e where
    e: "eulerUpdate now pop tdot dt = Inr e" and
    f: "susceptible (current e) = euler_spec dt (susceptible (current pop)) (susceptible (current tdot)) ?n"
      "infectious (current e) = euler_spec dt (infectious (current pop)) (infectious (current tdot)) ?n"
      "severe (current e) = euler_spec dt (severe (current pop)) (severe (current tdot)) ?n"
      "critical (current e) = euler_spec dt (critical (current pop)) (critical (current tdot)) ?n"
      "overflow (current e) = euler_spec dt (overflow (current pop)) (overflow (current tdot)) ?n"
      "cumulative_recovered (cumulative e) = euler_spec dt (cumulative_recovered (cumulative pop))
         (cumulative_recovered (cumulative tdot)) ?n"
      "cumulative_hospitalized (cumulative e) = euler_spec dt (cumulative_hospitalized (cumulative pop))
         (cumulative_hospitalized (cumulative tdot)) ?n"
      "cumulative_critical (cumulative e) = euler_spec dt (cumulative_critical (cumulative pop))
         (cumulative_critical (cumulative tdot)) ?n"
      "cumulative_fatality (cumulative e) = euler_spec dt (cumulative_fatality (cumulative pop))
         (cumulative_fatality (cumulative tdot)) ?n" and
    x: "exposed (current e) = map (\<lambda>age. exposedRow dt (exposed (current pop) ! age)
         (exposed (current tdot) ! age)) [0..<?n]"
    by blast
  have stages: "\<forall>age<?n. \<forall>i<length (exposed (current pop) ! age).
      exposed (current e) ! age ! i =
        euler_clamp dt (exposed (current pop) ! age ! i) (elem (exposed (current tdot) ! age) i)"
    by (simp add: x exposedRow_nth)
  have ne: "nonneg_state e"
    using e assms(4) by (rule nonneg_state_euler)
  have len: "length (overflow (current e)) = length (critical (current e))"
    "length (critical (current pop)) \<le> length (critical (current e))"
    using assms(3) by (simp_all add: f euler_spec_def)
  have nn: "nonneg_state (redistribute nICUBeds (length (critical (current pop))) e)"
    using ne len by (rule nonneg_state_redistribute)
  have a: "advanceState now pop tdot dt nICUBeds =
      Inr (redistribute nICUBeds (length (critical (current pop))) e)"
    by (simp add: advanceState_def e andThen_simps)
  from e a f stages ne nn show ?thesis
    by blast
qed


theorem advanceState_nonneg_witness:
  "length (infectious (current pop0)) \<le> length (exposed (current pop0)) \<and>
   length (infectious (current pop0)) \<le> length (exposed (current tdot0)) \<and>
   length (critical (current pop0)) \<le> length (infectious (current pop0)) \<and>
   length (exposed (current tdot0) ! 0) \<le> length (exposed (current pop0) ! 0) \<and>
   length (exposed (current tdot0) ! 1) \<le> length (exposed (current pop0) ! 1) \<and>
   (\<exists>e newPop. eulerUpdate (Num 0) pop0 tdot0 (Num 1) = Inr e \<and>
      advanceState (Num 0) pop0 tdot0 (Num 1) (Num 7) = Inr newPop \<and>
      susceptible (current e) = [Num 86, Num 0] \<and>
      critical (current e) = [Num 7, Num 4] \<and>
      exposed (current e) ! 0 ! 1 = Num 0 \<and>
      nonneg_state e \<and> nonneg_state newPop)"
proof -
  have h: "length (infectious (current pop0)) \<le> length (exposed (current pop0))"
    "length (infectious (current pop0)) \<le> length (exposed (current tdot0))"
    "length (critical (current pop0)) \<le> length (infectious (current pop0))"
    "\<forall>age<length (infectious (current pop0)).
       length (exposed (current tdot0) ! age) \<le> length (exposed (current pop0) ! age)"
    by (simp_all add: pop0_def tdot0_def All_less_Suc)
  from advanceState_nonneg [OF h, of "Num 0" "Num 1" "Num 7"] obtain e newPop where
    r: "eulerUpdate (Num 0) pop0 tdot0 (Num 1) = Inr e"
      "advanceState (Num 0) pop0 tdot0 (Num 1) (Num 7) = Inr newPop"
      "nonneg_state e" "nonneg_state newPop" and
    s: "susceptible (current e) = euler_spec (Num 1) (susceptible (current pop0))
         (susceptible (current tdot0)) (length (infectious (current pop0)))" and
    c: "critical (current e) = euler_spec (Num 1) (critical (current pop0))
         (critical (current tdot0)) (length (infectious (current pop0)))" and
    x: "\<forall>age<length (infectious (current pop0)). \<forall>i<length (exposed (current pop0) ! age).
       exposed (current e) ! age ! i =
         euler_clamp (Num 1) (exposed (current pop0) ! age ! i) (elem (exposed (current tdot0) ! age) i)"
    by blast
  have "susceptible (current e) = [Num 86, Num 0]"
    by (simp add: s euler_spec_def elem_def pop0_def tdot0_def upt_rec)
  moreover have "critical (current e) = [Num 7, Num 4]"
    by (simp add: c euler_spec_def elem_def pop0_def tdot0_def upt_rec)
  moreover have "exposed (current e) ! 0 ! 1 = Num 0"
    using x by (simp add: elem_def pop0_def tdot0_def)
  moreover have "length (exposed (current tdot0) ! 0) \<le> length (exposed (current pop0) ! 0)"
    "length (exposed (current tdot0) ! 1) \<le> length (exposed (current pop0) ! 1)"
    by (simp_all add: pop0_def tdot0_def)
  ultimately show ?thesis
    using h(1,2,3) r by blast
qed

section \<open>The redistribution within \<open>advanceState\<close>\<close>

text \<open>
  Claim C10. For a state with a chain for each age group (as has the derivative) and a
  critical array no longer than the infectious array, and for every bed budget: the
  state \<open>advanceState\<close> returns is the Euler state \<open>e\<close> after the redistribution;
  for every age group the sum of critical and overflow is the same in both, and the
  redistribution changes no field other than critical and overflow.
\<close>

theorem redistribution_conserves:
  assumes "length (infectious (current pop)) \<le> length (exposed (current pop))"
    and "length (infectious (current pop)) \<le> length (exposed (current tdot))"
    and "length (critical (current pop)) \<le> length (infectious (current pop))"
  shows "\<exists>e newPop. eulerUpdate now pop tdot dt = Inr e \<and>
    advanceState now pop tdot dt nICUBeds = Inr newPop \<and>
    newPop = redistribute nICUBeds (length (critical (current pop))) e \<and>
    length (critical (current newPop)) = length (infectious (current pop)) \<and>
    length (overflow (current newPop)) = length (infectious (current pop)) \<and>
    (\<forall>a<length (infectious (current pop)).
       critical (current newPop) ! a + overflow (current newPop) ! a =
       critical (current e) ! a + overflow (current e) ! a) \<and>
    susceptible (current newPop) = susceptible (current e) \<and>
    exposed (current newPop) = exposed (current e) \<and>
    infectious (current newPop) = infectious (current e) \<and>
    severe (current newPop) = severe (current e) \<and>
    cumulative newPop = cumulative e \<and>
    time newPop = time e"
proof -
  let ?m = "length (critical (current pop))"
  from assms(1,2) obtain e c ov where e: "eulerUpdate now pop tdot dt = Inr e"
    and c: "critical (current e) = map Num c" and ov: "overflow (current e) = map Num ov"
    and l: "length c = length (infectious (current pop))" "length ov = length c"
    by (rule eulerUpdate_icu)
  from l assms(3) have m: "?m \<le> length c"
    by simp
  have a: "advanceState now pop tdot dt nICUBeds = Inr (redistribute nICUBeds ?m e)"
    by (simp add: advanceState_def e andThen_simps)
  show ?thesis
  proof (cases nICUBeds)
    case NaN
    with e a c ov l show ?thesis
      by (simp add: redistribute_NaN)
  next
    case (Num b)
    obtain c' ov' f' where p: "spec_readmit 0 ?m (spec_displace ?m (c, ov, b - sum_list c)) = (c', ov', f')"
      by (cases "spec_readmit 0 ?m (spec_displace ?m (c, ov, b - sum_list c))")
    note P = spec_passes_props(1,2,4) [OF m l(2) p]
    have r: "redistribute nICUBeds ?m e =
        e\<lparr>current := (current e)\<lparr>critical := map Num c', overflow := map Num ov'\<rparr>\<rparr>"
      using redistribute_Num [OF c ov l(2) m p] Num by simp
    from P l have "\<forall>a<length (infectious (current pop)).
        map Num c' ! a + map Num ov' ! a = map Num c ! a + map Num ov ! a"
      by simp
    with e a r c ov l P(1,2) show ?thesis
      by simp
  qed
qed

theorem redistribution_conserves_witness:
  "length (infectious (current pop0)) \<le> length (exposed (current pop0)) \<and>
   length (infectious (current pop0)) \<le> length (exposed (current tdot0)) \<and>
   length (critical (current pop0)) \<le> length (infectious (current pop0)) \<and>
   (\<exists>e newPop. eulerUpdate (Num 0) pop0 tdot0 (Num 1) = Inr e \<and>
      advanceState (Num 0) pop0 tdot0 (Num 1) (Num 7) = Inr newPop \<and>
      critical (current e) = [Num 7, Num 4] \<and> overflow (current e) = [Num 0, Num 0] \<and>
      critical (current newPop) ! 0 + overflow (current newPop) ! 0 = Num 7 \<and>
      critical (current newPop) ! 1 + overflow (current newPop) ! 1 = Num 4 \<and>
      severe (current newPop) = [Num 3, Num 2] \<and>
      cumulative newPop = cumulative e)"
proof -
  have h: "length (infectious (current pop0)) \<le> length (exposed (current pop0))"
    "length (infectious (current pop0)) \<le> length (exposed (current tdot0))"
    "length (critical (current pop0)) \<le> length (infectious (current pop0))"
    by (simp_all add: pop0_def tdot0_def)
  from redistribution_conserves [OF h, of "Num 0" "Num 1" "Num 7"] obtain e newPop where
    r: "eulerUpdate (Num 0) pop0 tdot0 (Num 1) = Inr e"
      "advanceState (Num 0) pop0 tdot0 (Num 1) (Num 7) = Inr newPop"
      "cumulative newPop = cumulative e" and
    s: "severe (current newPop) = severe (current e)" and
    q: "\<forall>a<length (infectious (current pop0)).
       critical (current newPop) ! a + overflow (current newPop) ! a =
       critical (current e) ! a + overflow (current e) ! a"
    by blast
  from r(1) have e: "critical (current e) = [Num 7, Num 4]" "overflow (current e) = [Num 0, Num 0]"
    "severe (current e) = [Num 3, Num 2]"
    by (auto simp: eulerUpdate_def pop0_def tdot0_def update_def elem_def gz_Num upt_rec)
  from q have "critical (current newPop) ! 0 + overflow (current newPop) ! 0 = Num 7"
    "critical (current newPop) ! 1 + overflow (current newPop) ! 1 = Num 4"
    by (simp_all add: e pop0_def)
  with h r s e show ?thesis
    by simp
qed


lemma spec_redistribute_example: "spec_redistribute 7 ([5, 5], [0, 0]) = ([5, 2], [0, 3])"
  by (simp add: spec_redistribute_def Let_def numeral_2_eq_2)

text \<open>
  Claim C3. For a state with a chain for each age group (as has the derivative) whose
  critical array is as long as the infectious array, \<open>advanceState\<close> returns the Euler
  state with critical and overflow replaced by what \<open>spec_redistribute\<close> computes from
  them: over capacity, from the oldest age group down, \<open>min(critical[a], deficit)\<close> is
  moved to overflow until the deficit is absorbed; with spare beds, from the youngest
  age group up, overflow is moved back to critical. In particular, with critical
  \<open>[5, 5]\<close>, overflow \<open>[0, 0]\<close>, a derivative that is zero on both, 7 beds and any
  step size that is a number, the result has critical \<open>[5, 2]\<close> and overflow \<open>[0, 3]\<close>.
\<close>

theorem redistribution_order:
  assumes "length (infectious (current pop)) \<le> length (exposed (current pop))"
    and "length (infectious (current pop)) \<le> length (exposed (current tdot))"
    and "length (critical (current pop)) = length (infectious (current pop))"
  shows "\<exists>e c ov newPop. eulerUpdate now pop tdot dt = Inr e \<and>
    critical (current e) = map Num c \<and> overflow (current e) = map Num ov \<and>
    advanceState now pop tdot dt (Num icuBeds) = Inr newPop \<and>
    newPop = e\<lparr>current := (current e)\<lparr>
      critical := map Num (fst (spec_redistribute icuBeds (c, ov))),
      overflow := map Num (snd (spec_redistribute icuBeds (c, ov)))\<rparr>\<rparr> \<and>
    (critical (current pop) = [Num 5, Num 5] \<and> overflow (current pop) = [Num 0, Num 0] \<and>
     critical (current tdot) = [Num 0, Num 0] \<and> overflow (current tdot) = [Num 0, Num 0] \<and>
     icuBeds = 7 \<and> dt \<noteq> NaN \<longrightarrow>
     critical (current newPop) = [Num 5, Num 2] \<and> overflow (current newPop) = [Num 0, Num 3])"
proof -
  let ?n = "length (infectious (current pop))"
  from assms(1,2) obtain e c ov where e: "eulerUpdate now pop tdot dt = Inr e"
    and c: "critical (current e) = map Num c" and ov: "overflow (current e) = map Num ov"
    and l: "length c = ?n" "length ov = length c"
    by (rule eulerUpdate_icu)
  from l assms(3) have m: "length (critical (current pop)) = length c"
    by simp
  obtain c' ov' f' where
    p: "spec_readmit 0 (length c) (spec_displace (length c) (c, ov, icuBeds - sum_list c)) = (c', ov', f')"
    by (cases "spec_readmit 0 (length c) (spec_displace (length c) (c, ov, icuBeds - sum_list c))")
  with spec_passes_eq_redistribute [OF l(2), of icuBeds] have s: "spec_redistribute icuBeds (c, ov) = (c', ov')"
    by simp
  let ?newPop = "e\<lparr>current := (current e)\<lparr>critical := map Num c', overflow := map Num ov'\<rparr>\<rparr>"
  have a: "advanceState now pop tdot dt (Num icuBeds) = Inr ?newPop"
    using redistribute_Num [OF c ov l(2) _ p] e m by (simp add: advanceState_def andThen_simps)
  have ex: "critical (current ?newPop) = [Num 5, Num 2] \<and> overflow (current ?newPop) = [Num 0, Num 3]"
    if h: "critical (current pop) = [Num 5, Num 5]" "overflow (current pop) = [Num 0, Num 0]"
      "critical (current tdot) = [Num 0, Num 0]" "overflow (current tdot) = [Num 0, Num 0]"
      "icuBeds = 7" "dt \<noteq> NaN"
  proof -
    from h(6) obtain d where d: "dt = Num d"
      by (cases dt) simp_all
    from h(1) assms(3) have n: "?n = 2"
      by simp
    from assms(1,2) obtain e' where "eulerUpdate now pop tdot dt = Inr e'"
      and "critical (current e') = map (update dt (critical (current pop)) (critical (current tdot))) [0..<?n]"
      and "overflow (current e') = map (update dt (overflow (current pop)) (overflow (current tdot))) [0..<?n]"
      by (rule eulerUpdate_Inr)
    with e have "critical (current e) = map (update dt (critical (current pop)) (critical (current tdot))) [0..<?n]"
      "overflow (current e) = map (update dt (overflow (current pop)) (overflow (current tdot))) [0..<?n]"
      by simp_all
    then have "map Num c = [Num 5, Num 5]" "map Num ov = [Num 0, Num 0]"
      by (simp_all add: c ov h n d update_def elem_def gz_Num upt_rec numeral_2_eq_2)
    then have "c = [5, 5]" "ov = [0, 0]"
      by auto
    with s h(5) spec_redistribute_example have "c' = [5, 2]" "ov' = [0, 3]"
      by simp_all
    then show ?thesis by simp
  qed
  from e c ov a s ex show ?thesis
    by (intro exI [of _ e] exI [of _ c] exI [of _ ov] exI [of _ ?newPop]) simp
qed

theorem redistribution_order_witness:
  "length (infectious (current pop0)) \<le> length (exposed (current pop0)) \<and>
   length (infectious (current pop0)) \<le> length (exposed (current zero0)) \<and>
   length (critical (current pop0)) = length (infectious (current pop0)) \<and>
   critical (current pop0) = [Num 5, Num 5] \<and> overflow (current pop0) = [Num 0, Num 0] \<and>
   critical (current zero0) = [Num 0, Num 0] \<and> overflow (current zero0) = [Num 0, Num 0] \<and>
   Num (1 / 2) \<noteq> NaN \<and>
   (\<exists>newPop. advanceState (Num 0) pop0 zero0 (Num (1 / 2)) (Num 7) = Inr newPop \<and>
      critical (current newPop) = [Num 5, Num 2] \<and> overflow (current newPop) = [Num 0, Num 3])"
proof -
  have h: "length (infectious (current pop0)) \<le> length (exposed (current pop0))"
    "length (infectious (current pop0)) \<le> length (exposed (current zero0))"
    "length (critical (current pop0)) = length (infectious (current pop0))"
    by (simp_all add: pop0_def zero0_def)
  have g: "critical (current pop0) = [Num 5, Num 5]" "overflow (current pop0) = [Num 0, Num 0]"
    "critical (current zero0) = [Num 0, Num 0]" "overflow (current zero0) = [Num 0, Num 0]"
    by (simp_all add: pop0_def zero0_def)
  from redistribution_order [OF h, of "Num 0" "Num (1 / 2)" 7] g
  have "\<exists>newPop. advanceState (Num 0) pop0 zero0 (Num (1 / 2)) (Num 7) = Inr newPop \<and>
      critical (current newPop) = [Num 5, Num 2] \<and> overflow (current newPop) = [Num 0, Num 3]"
    by auto
  with h g show ?thesis
    by simp
qed

section \<open>Determinism of \<open>evolve\<close>\<close>

lemma fluxes_time: "fluxes t (s\<lparr>time := x\<rparr>) P = fluxes t s P"
  by (simp add: fluxes_def)

lemma eulerUpdate_clock:
  "eulerUpdate now pop tdot dt = andThen (eulerUpdate now' pop tdot dt) (\<lambda>s. Inr (s\<lparr>time := now\<rparr>))"
  by (simp add: eulerUpdate_def Let_def andThen_simps)

lemma redistribute_time: "redistribute b m (e\<lparr>time := x\<rparr>) = (redistribute b m e)\<lparr>time := x\<rparr>"
  by (simp add: redistribute_def Let_def split: prod.splits)

lemma advanceState_clock:
  "advanceState now pop tdot dt b = andThen (advanceState now' pop tdot dt b) (\<lambda>s. Inr (s\<lparr>time := now\<rparr>))"
proof (cases "eulerUpdate now' pop tdot dt")
  case (Inl e)
  then show ?thesis
    by (simp add: advanceState_def eulerUpdate_clock [of now _ _ _ now'] andThen_simps)
next
  case (Inr e)
  then show ?thesis
    by (simp add: advanceState_def eulerUpdate_clock [of now _ _ _ now'] andThen_simps redistribute_time)
qed

text \<open>What is computed from the state that \<open>advanceState\<close> returns does not depend on the
  clock, when it does not read the time of that state.\<close>

lemma andThen_advanceState_clock:
  assumes "\<And>s x. f (s\<lparr>time := x\<rparr>) = f s"
  shows "andThen (advanceState now pop tdot dt b) f = andThen (advanceState now' pop tdot dt b) f"
proof (cases "advanceState now' pop tdot dt b")
  case (Inl e)
  then show ?thesis
    by (simp add: advanceState_clock [of now _ _ _ _ now'] andThen_simps)
next
  case (Inr s)
  then show ?thesis
    by (simp add: advanceState_clock [of now _ _ _ _ now'] andThen_simps assms)
qed

lemma stepODE_clock: "stepODE msPerDay clock pop P dt = stepODE msPerDay clock' pop P dt"
proof -
  have 1: "andThen (advanceState (clock 0) pop k d b) (\<lambda>s. fluxes t s P) =
      andThen (advanceState (clock' 0) pop k d b) (\<lambda>s. fluxes t s P)" for k d b t
    by (rule andThen_advanceState_clock) (rule fluxes_time)
  have 2: "andThen (advanceState (clock 1) pop k d b) (\<lambda>s. fluxes t s P) =
      andThen (advanceState (clock' 1) pop k d b) (\<lambda>s. fluxes t s P)" for k d b t
    by (rule andThen_advanceState_clock) (rule fluxes_time)
  have 3: "andThen (advanceState (clock 2) pop k d b) (\<lambda>s. fluxes t s P) =
      andThen (advanceState (clock' 2) pop k d b) (\<lambda>s. fluxes t s P)" for k d b t
    by (rule andThen_advanceState_clock) (rule fluxes_time)
  have 4: "andThen (advanceState (clock 3) pop k d b) (\<lambda>state. Inr (state\<lparr>time := t\<rparr>)) =
      andThen (advanceState (clock' 3) pop k d b) (\<lambda>state. Inr (state\<lparr>time := t\<rparr>))" for k d b t
    by (rule andThen_advanceState_clock) simp
  show ?thesis
    unfolding stepODE_def Let_def by (simp only: 1 2 3 4)
qed

lemma evolveLoop_clock:
  "evolveLoop msPerDay clock P dt nSteps i s = evolveLoop msPerDay clock' P dt nSteps i s"
proof (induction msPerDay clock P dt nSteps i s rule: evolveLoop.induct)
  case (1 msPerDay clock P dt nSteps i currState)
  show ?case
  proof (cases "Num (real i) < nSteps")
    case False
    then show ?thesis by simp
  next
    case True
    have s: "stepODE msPerDay (\<lambda>j. clock (4 * i + j)) currState P dt =
        stepODE msPerDay (\<lambda>j. clock' (4 * i + j)) currState P dt"
      by (rule stepODE_clock)
    show ?thesis
    proof (cases "stepODE msPerDay (\<lambda>j. clock' (4 * i + j)) currState P dt")
      case (Inl e)
      with True s show ?thesis
        by (subst (1 2) evolveLoop.simps) (simp add: andThen_simps)
    next
      case (Inr x)
      with True s "1.IH" [OF True, of x] show ?thesis
        by (subst (1 2) evolveLoop.simps) (simp add: andThen_simps)
    qed
  qed
qed

text \<open>
  Claim C8. \<open>evolve\<close> does not depend on its sampler argument nor on what the clock
  returns: for every state, parameters and target time, any two samplers and any two
  sequences of \<^verbatim>\<open>Date.now()\<close> readings give the same result, time field included.
  The states that \<open>advanceState\<close> creates carry the wall-clock time, but \<open>fluxes\<close>
  does not read it and \<open>stepODE\<close> overwrites it.
\<close>

theorem evolve_deterministic:
  "evolve msPerDay clock pop P tMax sample = evolve msPerDay clock' pop P tMax sample'"
  unfolding evolve_def Let_def by (rule evolveLoop_clock)

section \<open>The sub-steps of \<open>evolve\<close>\<close>

lemma evolveLoop_applySteps:
  "i \<le> n \<Longrightarrow>
   evolveLoop msPerDay clock P dt (Num (real n)) i s =
   applySteps (n - i) (\<lambda>i s. stepODE msPerDay (\<lambda>j. clock (4 * i + j)) s P dt) i s"
proof (induction "n - i" arbitrary: i s)
  case 0
  then show ?case by simp
next
  case (Suc d)
  then have i: "i < n" "d = n - Suc i" "Suc i \<le> n" "n - i = Suc d"
    by simp_all
  have "evolveLoop msPerDay clock P dt (Num (real n)) i s =
      andThen (stepODE msPerDay (\<lambda>j. clock (4 * i + j)) s P dt)
        (evolveLoop msPerDay clock P dt (Num (real n)) (Suc i))"
    using i(1) by (subst evolveLoop.simps) simp
  also have "evolveLoop msPerDay clock P dt (Num (real n)) (Suc i) =
      applySteps d (\<lambda>i s. stepODE msPerDay (\<lambda>j. clock (4 * i + j)) s P dt) (Suc i)"
    using Suc.hyps(1) [OF i(2,3)] i(2) by auto
  finally show ?case
    by (simp add: i(4))
qed

lemma andThen_Inr_right: "andThen r (applySteps 0 step i) = r"
  by (cases r) (simp_all add: andThen_simps)

lemma nSteps_Num:
  "Math_max 1 (Math_round (Num dT / eulerStep)) = Num (real (nat (max 1 (round (dT / (1 / 2))))))"
proof -
  have "max (1::real) (of_int z) = real (nat (max 1 z))" for z :: int
    by (simp add: max_def)
  then show ?thesis
    by (simp add: eulerStep_def one_num_def round_def)
qed

text \<open>
  Claim C4. For every state and target time with \<open>time pop < tMax\<close>, \<open>evolve\<close> is the
  sequence of exactly \<open>n = max(1, round(dT / 0.5))\<close> calls of \<open>stepODE\<close>, each on the
  output of the one before and each with the step size \<open>dT / n\<close>, where
  \<open>dT = tMax - time pop\<close>. The program divides this difference by \<open>eulerStep = 0.5\<close>
  as it is, so that one day is the difference 1; for it \<open>evolve\<close> is two calls of
  \<open>stepODE\<close> with step size one half.
\<close>

theorem evolve_substeps:
  assumes "time pop < tMax"
  shows "\<exists>dT n. tMax - time pop = Num dT \<and> n = nat (max 1 (round (dT / (1 / 2)))) \<and>
    evolve msPerDay clock pop P tMax sample =
      applySteps n (\<lambda>i s. stepODE msPerDay (\<lambda>j. clock (4 * i + j)) s P (Num (dT / real n))) 0 pop \<and>
    (dT = 1 \<longrightarrow>
       evolve msPerDay clock pop P tMax sample =
         andThen (stepODE msPerDay (\<lambda>j. clock j) pop P (Num (1 / 2)))
           (\<lambda>s. stepODE msPerDay (\<lambda>j. clock (4 + j)) s P (Num (1 / 2))))"
proof -
  from assms obtain t t' where t: "time pop = Num t" "tMax = Num t'"
    by (cases "time pop"; cases tMax) simp_all
  let ?dT = "t' - t"
  let ?n = "nat (max 1 (round (?dT / (1 / 2))))"
  have n: "0 < ?n"
    by simp
  have d: "tMax - time pop = Num ?dT"
    by (simp add: t)
  have dt: "Num ?dT / Num (real ?n) = Num (?dT / real ?n)"
    using n by simp
  have e: "evolve msPerDay clock pop P tMax sample =
      applySteps ?n (\<lambda>i s. stepODE msPerDay (\<lambda>j. clock (4 * i + j)) s P (Num (?dT / real ?n))) 0 pop"
    unfolding evolve_def Let_def d nSteps_Num dt
    using evolveLoop_applySteps [of 0 ?n] by simp
  have two: "evolve msPerDay clock pop P tMax sample =
         andThen (stepODE msPerDay (\<lambda>j. clock j) pop P (Num (1 / 2)))
           (\<lambda>s. stepODE msPerDay (\<lambda>j. clock (4 + j)) s P (Num (1 / 2)))"
    if "?dT = 1"
  proof -
    have "round (1 / (1 / 2) :: real) = 2"
      by (simp add: round_def)
    with that have n2: "?n = 2"
      by simp
    have A: "applySteps 2 step 0 pop = andThen (step 0 pop) (step (Suc 0))"
      for step :: "nat \<Rightarrow> SimulationTimePoint \<Rightarrow> error + SimulationTimePoint"
    proof -
      have "applySteps (Suc 0) step (Suc 0) = step (Suc 0)"
        by (rule ext) (simp add: andThen_Inr_right)
      then show ?thesis
        by (simp add: numeral_2_eq_2)
    qed
    from e that n2 have "evolve msPerDay clock pop P tMax sample =
        applySteps 2 (\<lambda>i s. stepODE msPerDay (\<lambda>j. clock (4 * i + j)) s P (Num (1 / 2))) 0 pop"
      by simp
    also have "\<dots> = andThen ((\<lambda>i s. stepODE msPerDay (\<lambda>j. clock (4 * i + j)) s P (Num (1 / 2))) 0 pop)
        ((\<lambda>i s. stepODE msPerDay (\<lambda>j. clock (4 * i + j)) s P (Num (1 / 2))) (Suc 0))"
      by (rule A)
    finally show ?thesis
      by simp
  qed
  from d e two show ?thesis
    by blast
qed


theorem evolve_substeps_witness:
  "time pop0 < Num 1 \<and>
   evolve (Num 86400000) (\<lambda>i. Num 0) pop0 params0 (Num 1) (\<lambda>x. x) =
     andThen (stepODE (Num 86400000) (\<lambda>j. Num 0) pop0 params0 (Num (1 / 2)))
       (\<lambda>s. stepODE (Num 86400000) (\<lambda>j. Num 0) s params0 (Num (1 / 2)))"
proof -
  have t: "time pop0 = Num 0"
    by (simp add: pop0_def)
  then have h: "time pop0 < Num 1"
    by simp
  from evolve_substeps [OF h, of "Num 86400000" "\<lambda>i. Num 0" params0 "\<lambda>x. x"] h show ?thesis
    by (auto simp: t)
qed

section \<open>Shapes through one RK4 step\<close>

lemma map_nth_upt_take: "n \<le> length xs \<Longrightarrow> map (\<lambda>i. f (xs ! i)) [0..<n] = take n (map f xs)"
  by (simp add: list_eq_iff_nth_eq)

lemma length_exposedChain: "length (fst (exposedChain x ys)) = length ys"
proof (induction ys arbitrary: x)
  case Nil
  show ?case by simp
next
  case (Cons y ys)
  from Cons [of y] show ?case
    by (cases "exposedChain y ys") simp
qed

lemma fluxes_shape:
  assumes "state_shape ls s"
  shows "\<exists>fl. fluxes t s P = Inr fl \<and> length (flux_susceptible fl) = length ls \<and>
    map length (flux_exposed fl) = ls"
proof -
  from assms have n: "length (infectious (current s)) = length ls"
    "length ls \<le> length (exposed (current s))"
    "take (length ls) (map length (exposed (current s))) = ls"
    by (simp_all add: state_shape_def)
  have "map (\<lambda>age. length (exposed (current s) ! age)) [0..<length ls] = ls"
    using map_nth_upt_take [OF n(2), of length] n(3) by simp
  with n(1,2) show ?thesis
    by (simp add: fluxes_def Let_def comp_def)
qed

lemma derivative_shape:
  assumes "length (flux_susceptible fl) = length ls" "map length (flux_exposed fl) = ls"
  shows "\<exists>k. derivative fl = Inr k \<and> deriv_shape ls k"
proof -
  from assms(2) have l: "length (flux_exposed fl) = length ls"
    by (metis length_map)
  then have "map (\<lambda>age. length (flux_exposed fl ! age)) [0..<length ls] = ls"
    using map_nth_upt_take [of "length ls" "flux_exposed fl" length] assms(2) by simp
  with assms(1) l show ?thesis
    by (simp add: derivative_def Let_def deriv_shape_def comp_def length_exposedChain)
qed

text \<open>A slope: the derivative of the fluxes of a state has the shape of the state.\<close>

lemma slope_shape:
  assumes "state_shape ls s"
  shows "\<exists>k. andThen (fluxes t s P) derivative = Inr k \<and> deriv_shape ls k"
proof -
  from fluxes_shape [OF assms, of t P] obtain fl where
    fl: "fluxes t s P = Inr fl" "length (flux_susceptible fl) = length ls"
      "map length (flux_exposed fl) = ls"
    by blast
  from derivative_shape [OF fl(2,3)] fl(1) show ?thesis
    by (simp add: andThen_simps)
qed

lemma length_exposedRow: "length t = length p \<Longrightarrow> length (exposedRow dt p t) = length p"
  by (simp add: exposedRow_def)

lemma redistribute_keeps:
  "infectious (current (redistribute b m e)) = infectious (current e)"
  "exposed (current (redistribute b m e)) = exposed (current e)"
  by (simp_all add: redistribute_def Let_def split: prod.splits)

lemma advanceState_shape:
  assumes "state_shape ls pop" "deriv_shape ls k"
  shows "\<exists>s. advanceState now pop k dt b = Inr s \<and> state_shape ls s"
proof -
  from assms(1) have n: "length (infectious (current pop)) = length ls"
    "length ls \<le> length (exposed (current pop))"
    "take (length ls) (map length (exposed (current pop))) = ls"
    by (simp_all add: state_shape_def)
  from assms(2) have k: "map length (exposed (current k)) = ls"
    by (simp add: deriv_shape_def)
  then have lk: "length (exposed (current k)) = length ls"
    by (metis length_map)
  have p: "map (\<lambda>age. length (exposed (current pop) ! age)) [0..<length ls] = ls"
    using map_nth_upt_take [OF n(2), of length] n(3) by simp
  have rows: "length (exposed (current k) ! age) = length (exposed (current pop) ! age)"
    if "age < length ls" for age
  proof -
    from that lk have "length (exposed (current k) ! age) = map length (exposed (current k)) ! age"
      by simp
    also have "\<dots> = ls ! age"
      by (simp add: k)
    also have "\<dots> = map (\<lambda>age. length (exposed (current pop) ! age)) [0..<length ls] ! age"
      by (simp add: p)
    also have "\<dots> = length (exposed (current pop) ! age)"
      using that by simp
    finally show ?thesis .
  qed
  have "map (\<lambda>age. length (exposedRow dt (exposed (current pop) ! age) (exposed (current k) ! age)))
      [0..<length ls] = map (\<lambda>age. length (exposed (current pop) ! age)) [0..<length ls]"
    by (rule map_cong) (simp_all add: rows length_exposedRow)
  with p have r: "map (\<lambda>age. length (exposedRow dt (exposed (current pop) ! age) (exposed (current k) ! age)))
      [0..<length ls] = ls"
    by simp
  from eulerUpdate_fields [of pop k now dt] n lk obtain e where
    e: "eulerUpdate now pop k dt = Inr e"
      "infectious (current e) = euler_spec dt (infectious (current pop)) (infectious (current k)) (length ls)"
      "exposed (current e) = map (\<lambda>age. exposedRow dt (exposed (current pop) ! age)
         (exposed (current k) ! age)) [0..<length ls]"
    by auto
  have "state_shape ls (redistribute b (length (critical (current pop))) e)"
    by (simp add: state_shape_def redistribute_keeps e euler_spec_def comp_def r)
  with e(1) show ?thesis
    by (simp add: advanceState_def andThen_simps)
qed


lemma zero_plus_num: "(0::num) + x = x"
  by (cases x) (simp_all add: zero_num_def)

lemma elem_map_upt: "age < n \<Longrightarrow> elem (map F [0..<n]) age = F age"
  by (simp add: elem_def)

lemma addScaled_replicate:
  "addScaled w (replicate n 0) g n = map (\<lambda>age. w * elem g age) [0..<n]"
  by (simp add: addScaled_def elem_def zero_plus_num)

lemma addScaled_map:
  "addScaled w (map F [0..<n]) g n = map (\<lambda>age. F age + w * elem g age) [0..<n]"
  by (simp add: addScaled_def elem_def)

lemma addScaledRow_zero:
  "length g = length z \<Longrightarrow>
   addScaledRow w (map (\<lambda>e. 0) z) g = map (\<lambda>j. w * elem g j) [0..<length z]"
  by (simp add: addScaledRow_def elem_def zero_plus_num)

lemma addScaledRow_map:
  "length g = L \<Longrightarrow>
   addScaledRow w (map F [0..<L]) g = map (\<lambda>j. F j + w * elem g j) [0..<L]"
  by (simp add: addScaledRow_def elem_def)

lemma shape_row:
  assumes "map length xs = ls" "age < length ls"
  shows "length (xs ! age) = ls ! age"
proof -
  from assms have "age < length xs"
    by (metis length_map)
  then have "length (xs ! age) = map length xs ! age"
    by simp
  with assms(1) show ?thesis by simp
qed

lemma accumulate_Inr:
  "length (exposed (current grad)) = n \<Longrightarrow>
   accumulate n w acc grad = Inr \<lparr>
     current = \<lparr>
       susceptible = addScaled w (susceptible (current acc)) (susceptible (current grad)) n,
       exposed = map (\<lambda>age. addScaledRow w (exposed (current acc) ! age) (exposed (current grad) ! age)) [0..<n],
       infectious = addScaled w (infectious (current acc)) (infectious (current grad)) n,
       severe = addScaled w (severe (current acc)) (severe (current grad)) n,
       critical = addScaled w (critical (current acc)) (critical (current grad)) n,
       overflow = addScaled w (overflow (current acc)) (overflow (current grad)) n\<rparr>,
     cumulative = \<lparr>
       cumulative_recovered = addScaled w (cumulative_recovered (cumulative acc))
         (cumulative_recovered (cumulative grad)) n,
       cumulative_hospitalized = addScaled w (cumulative_hospitalized (cumulative acc))
         (cumulative_hospitalized (cumulative grad)) n,
       cumulative_critical = addScaled w (cumulative_critical (cumulative acc))
         (cumulative_critical (cumulative grad)) n,
       cumulative_fatality = addScaled w (cumulative_fatality (cumulative acc))
         (cumulative_fatality (cumulative grad)) n\<rparr>\<rparr>"
  by (simp add: accumulate_def Let_def)

text \<open>The chains of the sum of four derivatives of one shape.\<close>

lemma rows_rk4:
  assumes "map length a = ls" "map length b = ls" "map length c = ls" "map length d = ls"
  shows "map (\<lambda>age. addScaledRow w4 (map (\<lambda>age. addScaledRow w3
      (map (\<lambda>age. addScaledRow w2 (map (\<lambda>age. addScaledRow w1
        (map (\<lambda>age. map (\<lambda>e. 0) (a ! age)) [0..<length ls] ! age) (a ! age)) [0..<length ls] ! age)
        (b ! age)) [0..<length ls] ! age) (c ! age)) [0..<length ls] ! age) (d ! age)) [0..<length ls] =
    map (\<lambda>age. map (\<lambda>j. w1 * elem (a ! age) j + w2 * elem (b ! age) j + w3 * elem (c ! age) j +
      w4 * elem (d ! age) j) [0..<length (a ! age)]) [0..<length ls]"
proof (rule map_cong [OF refl])
  fix age
  assume "age \<in> set [0..<length ls]"
  then have age: "age < length ls"
    by simp
  note r = shape_row [OF assms(1) age] shape_row [OF assms(2) age] shape_row [OF assms(3) age]
    shape_row [OF assms(4) age]
  have 1: "addScaledRow w1 (map (\<lambda>e. 0) (a ! age)) (a ! age) =
      map (\<lambda>j. w1 * elem (a ! age) j) [0..<length (a ! age)]"
    by (rule addScaledRow_zero) simp
  have 2: "addScaledRow w2 (map (\<lambda>j. w1 * elem (a ! age) j) [0..<length (a ! age)]) (b ! age) =
      map (\<lambda>j. w1 * elem (a ! age) j + w2 * elem (b ! age) j) [0..<length (a ! age)]"
    by (rule addScaledRow_map) (simp add: r)
  have 3: "addScaledRow w3 (map (\<lambda>j. w1 * elem (a ! age) j + w2 * elem (b ! age) j)
        [0..<length (a ! age)]) (c ! age) =
      map (\<lambda>j. w1 * elem (a ! age) j + w2 * elem (b ! age) j + w3 * elem (c ! age) j)
        [0..<length (a ! age)]"
    by (rule addScaledRow_map) (simp add: r)
  have 4: "addScaledRow w4 (map (\<lambda>j. w1 * elem (a ! age) j + w2 * elem (b ! age) j +
        w3 * elem (c ! age) j) [0..<length (a ! age)]) (d ! age) =
      map (\<lambda>j. w1 * elem (a ! age) j + w2 * elem (b ! age) j + w3 * elem (c ! age) j +
        w4 * elem (d ! age) j) [0..<length (a ! age)]"
    by (rule addScaledRow_map) (simp add: r)
  from age show "addScaledRow w4 (map (\<lambda>age. addScaledRow w3
      (map (\<lambda>age. addScaledRow w2 (map (\<lambda>age. addScaledRow w1
        (map (\<lambda>age. map (\<lambda>e. 0) (a ! age)) [0..<length ls] ! age) (a ! age)) [0..<length ls] ! age)
        (b ! age)) [0..<length ls] ! age) (c ! age)) [0..<length ls] ! age) (d ! age) =
    map (\<lambda>j. w1 * elem (a ! age) j + w2 * elem (b ! age) j + w3 * elem (c ! age) j +
      w4 * elem (d ! age) j) [0..<length (a ! age)]"
    by (simp add: 1 2 3 4)
qed

lemma sumDerivatives_rk4:
  assumes "deriv_shape ls k1" "deriv_shape ls k2" "deriv_shape ls k3" "deriv_shape ls k4"
  shows "sumDerivatives [k1, k2, k3, k4] [Num (1 / 6), Num (1 / 3), Num (1 / 3), Num (1 / 6)] =
      Inr (combine_rk4 k1 k2 k3 k4)"
    and "deriv_shape ls (combine_rk4 k1 k2 k3 k4)"
proof -
  from assms have s: "length (susceptible (current k1)) = length ls"
    and x: "map length (exposed (current k1)) = ls" "map length (exposed (current k2)) = ls"
      "map length (exposed (current k3)) = ls" "map length (exposed (current k4)) = ls"
    by (simp_all add: deriv_shape_def)
  from x have l: "length (exposed (current k1)) = length ls" "length (exposed (current k2)) = length ls"
    "length (exposed (current k3)) = length ls" "length (exposed (current k4)) = length ls"
    by (metis length_map)+
  have w: "elem [Num (1 / 6), Num (1 / 3), Num (1 / 3), Num (1 / 6)] 0 = Num (1 / 6)"
    "elem [Num (1 / 6), Num (1 / 3), Num (1 / 3), Num (1 / 6)] (Suc 0) = Num (1 / 3)"
    "elem [Num (1 / 6), Num (1 / 3), Num (1 / 3), Num (1 / 6)] (Suc (Suc 0)) = Num (1 / 3)"
    "elem [Num (1 / 6), Num (1 / 3), Num (1 / 3), Num (1 / 6)] (Suc (Suc (Suc 0))) = Num (1 / 6)"
    by (simp_all add: elem_def)
  show "sumDerivatives [k1, k2, k3, k4] [Num (1 / 6), Num (1 / 3), Num (1 / 3), Num (1 / 6)] =
      Inr (combine_rk4 k1 k2 k3 k4)"
    by (simp add: sumDerivatives_def s l w Let_def andThen_simps accumulate_Inr zeroDerivative_def
        addScaled_replicate addScaled_map rows_rk4 [OF x] combine_rk4_def rk4_field_def rk4_rows_def
        rk4_weighted_def)
  have "map (\<lambda>age. length (exposed (current k1) ! age)) [0..<length ls] = ls"
    using map_nth_upt_take [of "length ls" "exposed (current k1)" length] l(1) x(1) by simp
  then show "deriv_shape ls (combine_rk4 k1 k2 k3 k4)"
    by (simp add: deriv_shape_def combine_rk4_def Let_def rk4_field_def rk4_rows_def s comp_def)
qed

section \<open>The RK4 step\<close>

lemma state_shape_time: "state_shape ls (s\<lparr>time := t\<rparr>) = state_shape ls s"
  by (simp add: state_shape_def)

lemma state_shape_self:
  "length (infectious (current pop)) \<le> length (exposed (current pop)) \<Longrightarrow>
   state_shape (take (length (infectious (current pop))) (map length (exposed (current pop)))) pop"
  by (simp add: state_shape_def)

lemma state_shape_chains:
  "state_shape ls s \<Longrightarrow> length (infectious (current s)) \<le> length (exposed (current s))"
  by (simp add: state_shape_def)

text \<open>One step on a state of shape \<open>ls\<close>: every call returns, in the order of the program.\<close>

lemma stepODE_shaped:
  assumes "state_shape ls pop"
  shows "\<exists>k1 k2 k3 k4 s1 s2 s3 state.
    andThen (fluxes (Date (time pop)) pop P) derivative = Inr k1 \<and>
    advanceState (clock 0) pop k1 (dt / Num 2) (ICUBeds P) = Inr s1 \<and>
    andThen (fluxes (Date (time pop + dt / Num 2 * msPerDay)) s1 P) derivative = Inr k2 \<and>
    advanceState (clock 1) pop k2 (dt / Num 2) (ICUBeds P) = Inr s2 \<and>
    andThen (fluxes (Date (time pop + dt / Num 2 * msPerDay)) s2 P) derivative = Inr k3 \<and>
    advanceState (clock 2) pop k3 dt (ICUBeds P) = Inr s3 \<and>
    andThen (fluxes (Date (time pop + dt * msPerDay)) s3 P) derivative = Inr k4 \<and>
    sumDerivatives [k1, k2, k3, k4] [Num (1 / 6), Num (1 / 3), Num (1 / 3), Num (1 / 6)] =
      Inr (combine_rk4 k1 k2 k3 k4) \<and>
    advanceState (clock 3) pop (combine_rk4 k1 k2 k3 k4) dt (ICUBeds P) = Inr state \<and>
    stepODE msPerDay clock pop P dt = Inr (state\<lparr>time := Date (time pop + dt * msPerDay)\<rparr>) \<and>
    state_shape ls state"
proof -
  let ?t0 = "Date (time pop)" and ?t1 = "Date (time pop + dt / Num 2 * msPerDay)"
    and ?t2 = "Date (time pop + dt * msPerDay)"
  from slope_shape [OF assms] obtain k1 where
    k1: "andThen (fluxes ?t0 pop P) derivative = Inr k1" "deriv_shape ls k1"
    by blast
  from advanceState_shape [OF assms k1(2)] obtain s1 where
    s1: "advanceState (clock 0) pop k1 (dt / Num 2) (ICUBeds P) = Inr s1" "state_shape ls s1"
    by blast
  from slope_shape [OF s1(2)] obtain k2 where
    k2: "andThen (fluxes ?t1 s1 P) derivative = Inr k2" "deriv_shape ls k2"
    by blast
  from advanceState_shape [OF assms k2(2)] obtain s2 where
    s2: "advanceState (clock 1) pop k2 (dt / Num 2) (ICUBeds P) = Inr s2" "state_shape ls s2"
    by blast
  from slope_shape [OF s2(2)] obtain k3 where
    k3: "andThen (fluxes ?t1 s2 P) derivative = Inr k3" "deriv_shape ls k3"
    by blast
  from advanceState_shape [OF assms k3(2)] obtain s3 where
    s3: "advanceState (clock 2) pop k3 dt (ICUBeds P) = Inr s3" "state_shape ls s3"
    by blast
  from slope_shape [OF s3(2)] obtain k4 where
    k4: "andThen (fluxes ?t2 s3 P) derivative = Inr k4" "deriv_shape ls k4"
    by blast
  note c = sumDerivatives_rk4 [OF k1(2) k2(2) k3(2) k4(2)]
  from advanceState_shape [OF assms c(2)] obtain state where
    st: "advanceState (clock 3) pop (combine_rk4 k1 k2 k3 k4) dt (ICUBeds P) = Inr state"
      "state_shape ls state"
    by blast
  have "stepODE msPerDay clock pop P dt = Inr (state\<lparr>time := ?t2\<rparr>)"
    unfolding stepODE_def Let_def
    by (simp only: k1(1) s1(1) k2(1) s2(1) k3(1) s3(1) k4(1) c(1) st(1) andThen_simps)
  with k1(1) s1(1) k2(1) s2(1) k3(1) s3(1) k4(1) c(1) st show ?thesis
    by blast
qed

text \<open>
  Claim C7. On a state with an exposed chain for each age group, one call of \<open>stepODE\<close>
  computes the slope \<open>k1\<close> at \<open>t0\<close> from the input state, \<open>k2\<close> and \<open>k3\<close> at
  \<open>t0 + dt/2\<close> from the states advanced by \<open>dt/2\<close> along \<open>k1\<close> and \<open>k2\<close>, and \<open>k4\<close> at
  \<open>t0 + dt\<close> from the state advanced by \<open>dt\<close> along \<open>k3\<close>; \<open>sumDerivatives\<close> returns
  their elementwise weighted sum \<open>1/6 k1 + 1/3 k2 + 1/3 k3 + 1/6 k4\<close> over every scalar
  and chain-stage field (\<open>combine_rk4\<close>); the input state is advanced by \<open>dt\<close> along that
  sum and given the time \<open>t0 + dt\<close>. Each of the four calls of \<open>advanceState\<close> (three
  intermediate, one final) has \<open>ICUBeds P\<close> for its bed budget. The times are the
  \<^verbatim>\<open>Date\<close>s of \<open>time pop\<close>, \<open>time pop + dt/2 * msPerDay\<close> and \<open>time pop + dt * msPerDay\<close>.
\<close>

theorem stepODE_rk4:
  assumes "length (infectious (current pop)) \<le> length (exposed (current pop))"
  shows "\<exists>k1 k2 k3 k4 s1 s2 s3 state.
    andThen (fluxes (Date (time pop)) pop P) derivative = Inr k1 \<and>
    advanceState (clock 0) pop k1 (dt / Num 2) (ICUBeds P) = Inr s1 \<and>
    andThen (fluxes (Date (time pop + dt / Num 2 * msPerDay)) s1 P) derivative = Inr k2 \<and>
    advanceState (clock 1) pop k2 (dt / Num 2) (ICUBeds P) = Inr s2 \<and>
    andThen (fluxes (Date (time pop + dt / Num 2 * msPerDay)) s2 P) derivative = Inr k3 \<and>
    advanceState (clock 2) pop k3 dt (ICUBeds P) = Inr s3 \<and>
    andThen (fluxes (Date (time pop + dt * msPerDay)) s3 P) derivative = Inr k4 \<and>
    sumDerivatives [k1, k2, k3, k4] [Num (1 / 6), Num (1 / 3), Num (1 / 3), Num (1 / 6)] =
      Inr (combine_rk4 k1 k2 k3 k4) \<and>
    advanceState (clock 3) pop (combine_rk4 k1 k2 k3 k4) dt (ICUBeds P) = Inr state \<and>
    stepODE msPerDay clock pop P dt = Inr (state\<lparr>time := Date (time pop + dt * msPerDay)\<rparr>)"
  using stepODE_shaped [OF state_shape_self [OF assms], of P clock dt msPerDay] by blast

theorem stepODE_rk4_witness:
  "length (infectious (current pop0)) \<le> length (exposed (current pop0)) \<and>
   (\<exists>k1 k2 k3 k4 s1 s2 s3 state.
    andThen (fluxes (Num 0) pop0 params0) derivative = Inr k1 \<and>
    advanceState (clock0 0) pop0 k1 (Num (1 / 4)) (Num 7) = Inr s1 \<and>
    andThen (fluxes (Num 21600000) s1 params0) derivative = Inr k2 \<and>
    advanceState (clock0 1) pop0 k2 (Num (1 / 4)) (Num 7) = Inr s2 \<and>
    andThen (fluxes (Num 21600000) s2 params0) derivative = Inr k3 \<and>
    advanceState (clock0 2) pop0 k3 (Num (1 / 2)) (Num 7) = Inr s3 \<and>
    andThen (fluxes (Num 43200000) s3 params0) derivative = Inr k4 \<and>
    sumDerivatives [k1, k2, k3, k4] [Num (1 / 6), Num (1 / 3), Num (1 / 3), Num (1 / 6)] =
      Inr (combine_rk4 k1 k2 k3 k4) \<and>
    advanceState (clock0 3) pop0 (combine_rk4 k1 k2 k3 k4) (Num (1 / 2)) (Num 7) = Inr state \<and>
    stepODE (Num 86400000) clock0 pop0 params0 (Num (1 / 2)) = Inr (state\<lparr>time := Num 43200000\<rparr>))"
proof -
  have h: "length (infectious (current pop0)) \<le> length (exposed (current pop0))"
    by (simp add: pop0_def)
  have t: "time pop0 = Num 0" "ICUBeds params0 = Num 7"
    by (simp_all add: pop0_def params0_def)
  have d: "Date (Num 0) = Num 0" "Date (Num 0 + Num (1 / 2) / Num 2 * Num 86400000) = Num 21600000"
    "Date (Num 0 + Num (1 / 2) * Num 86400000) = Num 43200000" "Num (1 / 2) / Num 2 = Num (1 / 4)"
    by simp_all
  from stepODE_rk4 [OF h, of params0 clock0 "Num (1 / 2)" "Num 86400000"] h show ?thesis
    by (simp add: t d)
qed

section \<open>Arrays of mismatched lengths\<close>

lemma stepODE_returns:
  assumes "state_shape ls s"
  shows "\<exists>s'. stepODE msPerDay clock s P dt = Inr s' \<and> state_shape ls s'"
proof -
  from stepODE_shaped [OF assms, of P clock dt msPerDay] obtain state where
    "stepODE msPerDay clock s P dt = Inr (state\<lparr>time := Date (time s + dt * msPerDay)\<rparr>)"
    "state_shape ls state"
    by blast
  then show ?thesis
    by (simp add: state_shape_time)
qed

lemma evolveLoop_returns:
  "state_shape ls s \<Longrightarrow> \<exists>s'. evolveLoop msPerDay clock P dt nSteps i s = Inr s'"
proof (induction msPerDay clock P dt nSteps i s rule: evolveLoop.induct)
  case (1 msPerDay clock P dt nSteps i currState)
  show ?case
  proof (cases "Num (real i) < nSteps")
    case False
    then show ?thesis by simp
  next
    case True
    from stepODE_returns [OF "1.prems", of msPerDay "\<lambda>j. clock (4 * i + j)" P dt] obtain x where
      x: "stepODE msPerDay (\<lambda>j. clock (4 * i + j)) currState P dt = Inr x" "state_shape ls x"
      by blast
    from "1.IH" [OF True x(2)] True x(1) show ?thesis
      by (subst evolveLoop.simps) (simp add: andThen_simps)
  qed
qed

lemma fluxes_TypeError:
  "length (exposed (current pop)) < length (infectious (current pop)) \<Longrightarrow>
   fluxes t pop P = Inl TypeError"
  by (simp add: fluxes_def Let_def)

lemma stepODE_TypeError:
  "length (exposed (current pop)) < length (infectious (current pop)) \<Longrightarrow>
   stepODE msPerDay clock pop P dt = Inl TypeError"
  by (simp add: stepODE_def Let_def fluxes_TypeError andThen_simps)

lemma nSteps_positive:
  assumes "time pop < tMax"
  shows "Num (real 0) < Math_max 1 (Math_round ((tMax - time pop) / eulerStep))"
proof -
  from assms obtain t t' where "time pop = Num t" "tMax = Num t'"
    by (cases "time pop"; cases tMax) simp_all
  then show ?thesis
    by (simp add: nSteps_Num)
qed

text \<open>
  Claim C9 does not hold of the program: it has no check of the array lengths and no
  \<^verbatim>\<open>ShapeMismatch\<close> error. On a state whose chains differ in length, with parameters
  for three age groups where the state has two, \<open>fluxes\<close> and \<open>evolve\<close> return a
  result.
\<close>

theorem shape_mismatch_returns:
  "shape_mismatch pop1 params1 \<and>
   \<not> isl (fluxes (Num 0) pop1 params1) \<and>
   \<not> isl (evolve (Num 86400000) clock0 pop1 params1 (Num 1) sample0)"
proof -
  have m: "shape_mismatch pop1 params1"
    by (simp add: shape_mismatch_def state_lengths_def param_lengths_def pop1_def pop0_def params1_def)
  have h: "length (infectious (current pop1)) \<le> length (exposed (current pop1))"
    by (simp add: pop1_def pop0_def)
  then have "\<exists>flux. fluxes (Num 0) pop1 params1 = Inr flux"
    by (simp add: fluxes_def Let_def)
  moreover have "\<exists>s. evolve (Num 86400000) clock0 pop1 params1 (Num 1) sample0 = Inr s"
    unfolding evolve_def Let_def by (rule evolveLoop_returns [OF state_shape_self [OF h]])
  ultimately show ?thesis
    using m by auto
qed

text \<open>
  Claim C9, amended. \<open>fluxes\<close> and \<open>evolve\<close> return a result whenever the state has an
  exposed chain for each entry of its infectious array, whatever the lengths of the
  parameter arrays, of the other arrays of the state and of the chains. When the state
  has fewer chains than infectious entries, \<open>fluxes\<close> ends with a \<^verbatim>\<open>TypeError\<close>, and
  so does \<open>evolve\<close> when the target time is after the time of the state.
\<close>

theorem no_shape_check:
  "(length (infectious (current pop)) \<le> length (exposed (current pop)) \<longrightarrow>
      (\<exists>flux. fluxes t pop P = Inr flux) \<and>
      (\<exists>s. evolve msPerDay clock pop P tMax sample = Inr s)) \<and>
   (length (exposed (current pop)) < length (infectious (current pop)) \<longrightarrow>
      fluxes t pop P = Inl TypeError \<and>
      (time pop < tMax \<longrightarrow> evolve msPerDay clock pop P tMax sample = Inl TypeError))"
proof (intro conjI impI)
  assume h: "length (infectious (current pop)) \<le> length (exposed (current pop))"
  then show "\<exists>flux. fluxes t pop P = Inr flux"
    by (simp add: fluxes_def Let_def)
  show "\<exists>s. evolve msPerDay clock pop P tMax sample = Inr s"
    unfolding evolve_def Let_def by (rule evolveLoop_returns [OF state_shape_self [OF h]])
next
  assume h: "length (exposed (current pop)) < length (infectious (current pop))"
  then show "fluxes t pop P = Inl TypeError"
    by (rule fluxes_TypeError)
  assume "time pop < tMax"
  from nSteps_positive [OF this] stepODE_TypeError [OF h]
  show "evolve msPerDay clock pop P tMax sample = Inl TypeError"
    unfolding evolve_def Let_def by (subst evolveLoop.simps) (simp add: andThen_simps)
qed

theorem no_shape_check_witness:
  "length (infectious (current pop1)) \<le> length (exposed (current pop1)) \<and>
   (\<exists>flux. fluxes (Num 0) pop1 params1 = Inr flux) \<and>
   (\<exists>s. evolve (Num 86400000) clock0 pop1 params1 (Num 1) sample0 = Inr s) \<and>
   length (exposed (current pop2)) < length (infectious (current pop2)) \<and>
   time pop2 < Num 1 \<and>
   fluxes (Num 0) pop2 params0 = Inl TypeError \<and>
   evolve (Num 86400000) clock0 pop2 params0 (Num 1) sample0 = Inl TypeError"
proof -
  have h: "length (infectious (current pop1)) \<le> length (exposed (current pop1))"
    "length (exposed (current pop2)) < length (infectious (current pop2))" "time pop2 < Num 1"
    by (simp_all add: pop1_def pop2_def pop0_def)
  from no_shape_check [of pop1 "Num 0" params1 "Num 86400000" clock0 "Num 1" sample0]
    no_shape_check [of pop2 "Num 0" params0 "Num 86400000" clock0 "Num 1" sample0] h
  show ?thesis
    by blast
qed

section \<open>The capacity of the beds\<close>






















end
